theory Spec2Isabelle
  imports Complex_Main
begin

section \<open>JavaScript strings\<close>

text \<open>
  A JavaScript string is a sequence of UTF-16 code units, and \<open>length\<close>,
  \<open>substring\<close>, \<open>includes\<close> and \<open>===\<close> all work on code units. The outline
  checker handles Japanese text and bullet glyphs outside ASCII, so a string is
  modelled as the list of its code units (natural numbers below 65536).
\<close>

type_synonym jsstring = "nat list"

definition ascii :: "string \<Rightarrow> jsstring" where
  "ascii s = map of_char s"

text \<open>The code units matched by \<open>\s\<close> in a regular expression and removed by
  \<open>trim()\<close>: the WhiteSpace and LineTerminator characters of ECMAScript.\<close>

definition isWhiteSpace :: "nat \<Rightarrow> bool" where
  "isWhiteSpace c \<longleftrightarrow>
     c \<in> {0x9, 0xA, 0xB, 0xC, 0xD, 0x20, 0xA0, 0x1680, 0x2028, 0x2029, 0x202F, 0x205F, 0x3000, 0xFEFF}
     \<or> (0x2000 \<le> c \<and> c \<le> 0x200A)"

definition trim :: "jsstring \<Rightarrow> jsstring" where
  "trim s = rev (dropWhile isWhiteSpace (rev (dropWhile isWhiteSpace s)))"

definition startsWith :: "jsstring \<Rightarrow> jsstring \<Rightarrow> bool" where
  "startsWith s p \<longleftrightarrow> take (length p) s = p"

text \<open>\<open>s.includes(sub)\<close>: \<open>sub\<close> occurs in \<open>s\<close> at some position.\<close>

fun includes_str :: "jsstring \<Rightarrow> jsstring \<Rightarrow> bool" where
  "includes_str [] sub \<longleftrightarrow> sub = []"
| "includes_str (c # cs) sub \<longleftrightarrow> startsWith (c # cs) sub \<or> includes_str cs sub"

text \<open>\<open>s.substring(0, n)\<close>\<close>

definition substring0 :: "jsstring \<Rightarrow> nat \<Rightarrow> jsstring" where
  "substring0 s n = take n s"

text \<open>\<open>s.split(/\s+/)\<close>: the pieces between maximal runs of white space; a run at either
  end leaves an empty piece there, and the empty string gives one empty piece.\<close>

function splitWhiteSpace :: "jsstring \<Rightarrow> jsstring list" where
  "splitWhiteSpace [] = [[]]"
| "splitWhiteSpace (c # cs) =
     (if isWhiteSpace c then [] # splitWhiteSpace (dropWhile isWhiteSpace cs)
      else (case splitWhiteSpace cs of t # ts \<Rightarrow> (c # t) # ts | [] \<Rightarrow> [[c]]))"
  by pat_completeness auto
termination
  by (relation "measure length") (auto simp: less_Suc_eq_le length_dropWhile_le)

text \<open>\<open>s.split(' ')\<close> for a one-unit separator \<open>d\<close>: every occurrence separates.\<close>

fun splitOn :: "nat \<Rightarrow> jsstring \<Rightarrow> jsstring list" where
  "splitOn d [] = [[]]"
| "splitOn d (c # cs) =
     (if c = d then [] # splitOn d cs
      else (case splitOn d cs of t # ts \<Rightarrow> (c # t) # ts | [] \<Rightarrow> [[c]]))"

text \<open>\<open>xs.join(sep)\<close>\<close>

fun join :: "jsstring \<Rightarrow> jsstring list \<Rightarrow> jsstring" where
  "join sep [] = []"
| "join sep [x] = x"
| "join sep (x # y # ys) = x @ sep @ join sep (y # ys)"

text \<open>The index of the first element that satisfies \<open>P\<close>: the loops
  \<open>for (let i = 0; i < items.length; i++) if (P(items[i])) return ...\<close>.\<close>

fun findIndex :: "('a \<Rightarrow> bool) \<Rightarrow> 'a list \<Rightarrow> nat option" where
  "findIndex P [] = None"
| "findIndex P (x # xs) = (if P x then Some 0 else map_option Suc (findIndex P xs))"

text \<open>\<open>Array.from(new Set(xs))\<close>: the first occurrence of every element, in order.\<close>

fun dedupe :: "'a list \<Rightarrow> 'a list" where
  "dedupe [] = []"
| "dedupe (x # xs) = x # dedupe (removeAll x xs)"

text \<open>The placeholder content of a synthesized parent: the literal U+672A U+5206 U+985E
  ("unclassified") of the source.\<close>

definition unclassified :: jsstring where
  "unclassified = [0x672A, 0x5206, 0x985E]"

section \<open>Hierarchy builder\<close>

text \<open>
  The second loop of \<open>buildBulletPointsData\<close> (and of the older \<open>run\<close>, which has
  the same loop) walks the bullet candidates and mutates objects through the two
  cursors \<open>currentSummary\<close> and \<open>currentMessage\<close>. The cursors alias objects that were
  pushed into arrays before, so the objects live in an explicit store: a reference is
  the index of the object in the list of all objects of its kind, in allocation order.
\<close>

type_synonym ref = nat

record BulletPoint =
  bp_text :: jsstring
  bp_level :: nat

record MessageObj =
  message_content :: jsstring
  bodies :: "ref list"

record SummaryObj =
  summary_content :: jsstring
  messages :: "ref list"

record builder =
  bodyObjs :: "jsstring list"
  messageObjs :: "MessageObj list"
  summaryObjs :: "SummaryObj list"
  summaries :: "ref list"
  currentSummary :: "ref option"
  currentMessage :: "ref option"

definition emptyBuilder :: builder where
  "emptyBuilder = \<lparr>bodyObjs = [], messageObjs = [], summaryObjs = [], summaries = [],
     currentSummary = None, currentMessage = None\<rparr>"

text \<open>\<open>currentSummary = {content: c, messages: []}; bulletPointsData.summaries.push(currentSummary)\<close>\<close>

definition newSummary :: "jsstring \<Rightarrow> builder \<Rightarrow> builder" where
  "newSummary c b =
     (let r = length (summaryObjs b)
      in b\<lparr>summaryObjs := summaryObjs b @ [\<lparr>summary_content = c, messages = []\<rparr>],
           currentSummary := Some r,
           summaries := summaries b @ [r]\<rparr>)"

text \<open>\<open>currentMessage = {content: c, bodies: []}; currentSummary.messages.push(currentMessage)\<close>.
  Reading \<open>.messages\<close> of a null cursor is a TypeError: \<open>None\<close>.\<close>

definition newMessage :: "jsstring \<Rightarrow> builder \<Rightarrow> builder option" where
  "newMessage c b =
     (case currentSummary b of
        None \<Rightarrow> None
      | Some s \<Rightarrow>
          (let r = length (messageObjs b);
               so = summaryObjs b ! s
           in Some (b\<lparr>messageObjs := messageObjs b @ [\<lparr>message_content = c, bodies = []\<rparr>],
                      currentMessage := Some r,
                      summaryObjs := (summaryObjs b)[s := so\<lparr>messages := messages so @ [r]\<rparr>]\<rparr>)))"

text \<open>\<open>currentMessage.bodies.push({content: c})\<close>\<close>

definition pushBody :: "jsstring \<Rightarrow> builder \<Rightarrow> builder option" where
  "pushBody c b =
     (case currentMessage b of
        None \<Rightarrow> None
      | Some m \<Rightarrow>
          (let r = length (bodyObjs b);
               mo = messageObjs b ! m
           in Some (b\<lparr>bodyObjs := bodyObjs b @ [c],
                      messageObjs := (messageObjs b)[m := mo\<lparr>bodies := bodies mo @ [r]\<rparr>]\<rparr>)))"

text \<open>\<open>if (!currentSummary) { ... placeholder ... }\<close>\<close>

definition ensureSummary :: "builder \<Rightarrow> builder" where
  "ensureSummary b = (if currentSummary b = None then newSummary unclassified b else b)"

text \<open>One iteration of \<open>for (const bulletPoint of bulletPoints)\<close>.\<close>

definition processBullet :: "BulletPoint \<Rightarrow> builder \<Rightarrow> builder option" where
  "processBullet bp b =
     (if bp_text bp = [] then Some b
      else if bp_level bp = 0 then Some ((newSummary (bp_text bp) b)\<lparr>currentMessage := None\<rparr>)
      else if bp_level bp = 1 then newMessage (bp_text bp) (ensureSummary b)
      else if bp_level bp = 2 then
        (if currentMessage b = None
         then Option.bind (newMessage unclassified (ensureSummary b)) (pushBody (bp_text bp))
         else pushBody (bp_text bp) b)
      else Some b)"

fun processBullets :: "BulletPoint list \<Rightarrow> builder \<Rightarrow> builder option" where
  "processBullets [] b = Some b"
| "processBullets (bp # bps) b = Option.bind (processBullet bp b) (processBullets bps)"

subsection \<open>The tree that is serialized\<close>

datatype Body = Body (body_content: jsstring)
datatype Message = Message (msg_content: jsstring) (msg_bodies: "Body list")
datatype Summary = Summary (sum_content: jsstring) (sum_messages: "Message list")

definition readBody :: "builder \<Rightarrow> ref \<Rightarrow> Body" where
  "readBody b r = Body (bodyObjs b ! r)"

definition readMessage :: "builder \<Rightarrow> ref \<Rightarrow> Message" where
  "readMessage b m =
     Message (message_content (messageObjs b ! m)) (map (readBody b) (bodies (messageObjs b ! m)))"

definition readSummary :: "builder \<Rightarrow> ref \<Rightarrow> Summary" where
  "readSummary b s =
     Summary (summary_content (summaryObjs b ! s)) (map (readMessage b) (messages (summaryObjs b ! s)))"

definition readSummaries :: "builder \<Rightarrow> Summary list" where
  "readSummaries b = map (readSummary b) (summaries b)"

text \<open>The message objects and body objects reachable from the output array, in reading order.\<close>

definition reachableMessages :: "builder \<Rightarrow> ref list" where
  "reachableMessages b = concat (map (\<lambda>s. messages (summaryObjs b ! s)) (summaries b))"

definition reachableBodies :: "builder \<Rightarrow> ref list" where
  "reachableBodies b = concat (map (\<lambda>m. bodies (messageObjs b ! m)) (reachableMessages b))"

section \<open>Paragraph normalizer\<close>

text \<open>A paragraph as loaded from the editor: its text and the two indents (JavaScript
  numbers, in points; every double is a real number).\<close>

record Paragraph =
  p_text :: jsstring
  leftIndent :: real
  firstLineIndent :: real

definition isDigit :: "nat \<Rightarrow> bool" where
  "isDigit c \<longleftrightarrow> 0x30 \<le> c \<and> c \<le> 0x39"

text \<open>\<open>text.match(/^\d+[\.\)]\s/)\<close>: digits, then a dot or a closing parenthesis, then
  one white-space character.\<close>

definition matchesNumbering :: "jsstring \<Rightarrow> bool" where
  "matchesNumbering t \<longleftrightarrow>
     takeWhile isDigit t \<noteq> [] \<and>
     (case dropWhile isDigit t of
        c # d # _ \<Rightarrow> (c = 0x2E \<or> c = 0x29) \<and> isWhiteSpace d
      | _ \<Rightarrow> False)"

text \<open>The bullet glyphs U+2022, hyphen, asterisk, U+25CB and U+30FB.\<close>

definition isBulletPoint :: "Paragraph \<Rightarrow> jsstring \<Rightarrow> bool" where
  "isBulletPoint paragraph t \<longleftrightarrow>
     startsWith t [0x2022] \<or> startsWith t [0x2D] \<or> startsWith t [0x2A] \<or>
     startsWith t [0x25CB] \<or> startsWith t [0x30FB] \<or>
     matchesNumbering t \<or>
     leftIndent paragraph > 0 \<or>
     firstLineIndent paragraph < 0"

text \<open>\<open>level = 0; if (leftIndent > 0) level = Math.min(2, Math.floor(leftIndent / 24))\<close>\<close>

definition inferLevel :: "Paragraph \<Rightarrow> nat" where
  "inferLevel paragraph =
     (if leftIndent paragraph > 0 then nat (min 2 \<lfloor>leftIndent paragraph / 24\<rfloor>) else 0)"

text \<open>\<open>.replace(/^[glyphs]\s*/, '')\<close> and \<open>.replace(/^\d+[\.\)]\s*/, '')\<close>\<close>

definition stripGlyph :: "jsstring \<Rightarrow> jsstring" where
  "stripGlyph t =
     (case t of
        [] \<Rightarrow> []
      | c # r \<Rightarrow> if c \<in> {0x2022, 0x2D, 0x2A, 0x25CB, 0x30FB} then dropWhile isWhiteSpace r else t)"

definition stripNumbering :: "jsstring \<Rightarrow> jsstring" where
  "stripNumbering t =
     (if takeWhile isDigit t = [] then t
      else (case dropWhile isDigit t of
              [] \<Rightarrow> t
            | c # r \<Rightarrow> if c = 0x2E \<or> c = 0x29 then dropWhile isWhiteSpace r else t))"

definition cleanText :: "jsstring \<Rightarrow> jsstring" where
  "cleanText t = trim (stripNumbering (stripGlyph t))"

text \<open>The object pushed to \<open>bulletPoints\<close> (its \<open>paragraph\<close> field is never read again).\<close>

definition toBulletPoint :: "Paragraph \<Rightarrow> jsstring \<Rightarrow> BulletPoint" where
  "toBulletPoint paragraph t = \<lparr>bp_text = cleanText t, bp_level = inferLevel paragraph\<rparr>"

subsection \<open>The current task pane: the title is given, the first loop of \<open>buildBulletPointsData\<close>\<close>

fun collectBulletPoints :: "jsstring \<Rightarrow> Paragraph list \<Rightarrow> BulletPoint list" where
  "collectBulletPoints titleText [] = []"
| "collectBulletPoints titleText (paragraph # rest) =
     (let t = trim (p_text paragraph)
      in if t = [] then collectBulletPoints titleText rest
         else if t = titleText then collectBulletPoints titleText rest
         else if isBulletPoint paragraph t
           then toBulletPoint paragraph t # collectBulletPoints titleText rest
         else collectBulletPoints titleText rest)"

record BulletPointsRequest =
  req_summaries :: "Summary list"
  req_title :: "jsstring option"

datatype exn = TypeError | ItemNotFound | ApiError

text \<open>\<open>buildBulletPointsData(context, titleText)\<close>: \<open>Inr None\<close> is the returned \<open>null\<close>.\<close>

definition buildBulletPointsData :: "Paragraph list \<Rightarrow> jsstring \<Rightarrow> exn + BulletPointsRequest option" where
  "buildBulletPointsData paragraphs titleText =
     (let bulletPoints = collectBulletPoints titleText paragraphs
      in if bulletPoints = [] then Inr None
         else (case processBullets bulletPoints emptyBuilder of
                 None \<Rightarrow> Inl TypeError
               | Some b \<Rightarrow> Inr (Some \<lparr>req_summaries = readSummaries b, req_title = Some titleText\<rparr>)))"

subsection \<open>The older task pane: the first loop of its \<open>run\<close> detects the title\<close>

record scan =
  titleParagraph :: "Paragraph option"
  titleText :: jsstring
  data_title :: "jsstring option"
  bulletPoints :: "BulletPoint list"

definition emptyScan :: scan where
  "emptyScan = \<lparr>titleParagraph = None, titleText = [], data_title = None, bulletPoints = []\<rparr>"

fun legacy_scanParagraphs :: "Paragraph list \<Rightarrow> scan \<Rightarrow> scan" where
  "legacy_scanParagraphs [] st = st"
| "legacy_scanParagraphs (paragraph # rest) st =
     (let t = trim (p_text paragraph)
      in if t = [] then legacy_scanParagraphs rest st
         else if \<not> isBulletPoint paragraph t \<and> titleParagraph st = None
           then legacy_scanParagraphs rest
                  (st\<lparr>titleParagraph := Some paragraph, titleText := t, data_title := Some t\<rparr>)
         else if isBulletPoint paragraph t
           then legacy_scanParagraphs rest
                  (st\<lparr>bulletPoints := bulletPoints st @ [toBulletPoint paragraph t]\<rparr>)
         else legacy_scanParagraphs rest st)"

text \<open>The request the older \<open>run\<close> sends (it sends nothing when there is no summary).\<close>

definition legacy_buildRequest :: "Paragraph list \<Rightarrow> exn + BulletPointsRequest" where
  "legacy_buildRequest paragraphs =
     (let st = legacy_scanParagraphs paragraphs emptyScan
      in case processBullets (bulletPoints st) emptyBuilder of
           None \<Rightarrow> Inl TypeError
         | Some b \<Rightarrow> Inr \<lparr>req_summaries = readSummaries b, req_title = data_title st\<rparr>)"

section \<open>Text locator\<close>

text \<open>A \<open>Word.Range\<close>: the range of the paragraph with a given index, or a range that a
  search of the document body returned (start and length).\<close>

datatype word_range = ParagraphRange nat | TextRange nat nat

text \<open>The source returns only the range. The model also returns which of the source's
  loops returned it, where the source writes a different log line.\<close>

datatype tier = ExactMatch | Substring | LongestWord | Prefix | ShortenedText | Keyword

text \<open>What the editor does on the document, whose text no operation here changes:
  \<^item> \<open>bodySearch t\<close>: \<open>context.document.body.getRange().search(t)\<close> after the sync,
    \<open>None\<close> when the editor rejects the call;
  \<^item> \<open>wildcardSearch\<close>: \<open>context.document.body.search("*", {matchWildcards: true})\<close>,
    \<open>None\<close> when the editor rejects the call;
  \<^item> \<open>rangeHasComment r a\<close>: \<open>r.getComments()\<close> returns the comments anchored at \<open>a\<close>;
  \<^item> \<open>insertCommentOk r t\<close>: \<open>r.insertComment(t)\<close> and the sync succeed;
  \<^item> \<open>pageTitle\<close>: \<open>document.title\<close>, the title of the task pane's page;
  \<^item> \<open>inheritedText k\<close>: when \<open>k\<close> names a member that every object literal inherits from
    \<open>Object.prototype\<close> (\<open>constructor\<close>, \<open>toString\<close>, \<open>__proto__\<close>, ...), the text that
    a template literal makes of that member; \<open>None\<close> for every other \<open>k\<close>.\<close>

record editor =
  bodySearch :: "jsstring \<Rightarrow> word_range list option"
  wildcardSearch :: "word_range list option"
  rangeHasComment :: "word_range \<Rightarrow> word_range \<Rightarrow> bool"
  insertCommentOk :: "word_range \<Rightarrow> jsstring \<Rightarrow> bool"
  pageTitle :: jsstring
  inheritedText :: "jsstring \<Rightarrow> jsstring option"

subsection \<open>The current \<open>findTextInDocument\<close>\<close>

text \<open>\<open>words.reduce((a, b) => a.length > b.length ? a : b)\<close> on a non-empty array.\<close>

definition longestWord :: "jsstring list \<Rightarrow> jsstring option" where
  "longestWord words =
     (case words of
        [] \<Rightarrow> None
      | w # ws \<Rightarrow> Some (foldl (\<lambda>a b. if length a > length b then a else b) w ws))"

definition paragraphIncluding :: "jsstring \<Rightarrow> Paragraph list \<Rightarrow> nat option" where
  "paragraphIncluding t paragraphs = findIndex (\<lambda>paragraph. includes_str (p_text paragraph) t) paragraphs"

definition effectiveSearchText :: "jsstring \<Rightarrow> jsstring" where
  "effectiveSearchText searchText =
     (if length searchText > 255 then substring0 searchText 255 else searchText)"

definition findTextInDocument :: "jsstring \<Rightarrow> Paragraph list \<Rightarrow> (tier \<times> word_range) option" where
  "findTextInDocument searchText paragraphs =
     (if searchText = [] \<or> trim searchText = [] then None
      else
        let eff = effectiveSearchText searchText
        in case paragraphIncluding eff paragraphs of
             Some i \<Rightarrow> Some (Substring, ParagraphRange i)
           | None \<Rightarrow>
               (case (case longestWord (filter (\<lambda>word. length word > 3) (splitWhiteSpace eff)) of
                        None \<Rightarrow> None
                      | Some w \<Rightarrow> paragraphIncluding w paragraphs) of
                  Some i \<Rightarrow> Some (LongestWord, ParagraphRange i)
                | None \<Rightarrow>
                    (if length eff > 10
                     then (case paragraphIncluding (substring0 eff 10) paragraphs of
                             Some i \<Rightarrow> Some (Prefix, ParagraphRange i)
                           | None \<Rightarrow> None)
                     else None)))"

subsection \<open>\<open>extractKeywords\<close> (both task panes; only the older one calls it)\<close>

definition commonWords :: "jsstring list" where
  "commonWords =
     [[0x3053, 0x308C], [0x305D, 0x308C], [0x3042, 0x308C], [0x3053, 0x306E],
      [0x305D, 0x306E], [0x3042, 0x306E], [0x307E, 0x3059], [0x3067, 0x3059],
      [0x3057, 0x305F], [0x3042, 0x308B], [0x3044, 0x308B], [0x308C, 0x308B],
      [0x3089, 0x308C, 0x308B], [0x306A, 0x3069], [0x305F, 0x3081], [0x3088, 0x3046]]"

definition extractKeywords :: "jsstring \<Rightarrow> jsstring list" where
  "extractKeywords t =
     dedupe (filter (\<lambda>word. \<not> length word < 3 \<and> word \<notin> set commonWords) (splitWhiteSpace t))"

subsection \<open>The older \<open>findTextInDocument\<close>\<close>

text \<open>The outcome of one search of the whole body: a range, nothing, or an exception
  that the function's \<open>catch\<close> turns into \<open>null\<close>.\<close>

datatype attempt = Hit word_range | Miss | Threw

definition searchBody :: "editor \<Rightarrow> jsstring \<Rightarrow> attempt" where
  "searchBody ed t =
     (case bodySearch ed t of
        None \<Rightarrow> Threw
      | Some [] \<Rightarrow> Miss
      | Some (r # _) \<Rightarrow> Hit r)"

text \<open>Step 3: for a text longer than 10, search the body for its first five space-separated
  words.\<close>

definition legacy_shortenedSearch :: "editor \<Rightarrow> jsstring \<Rightarrow> attempt" where
  "legacy_shortenedSearch ed searchText =
     (if length searchText > 10
      then (let words = splitOn 0x20 searchText;
                shortSearchText = join [0x20] (take (min 5 (length words)) words)
            in if length shortSearchText > 3 then searchBody ed shortSearchText else Miss)
      else Miss)"

text \<open>Step 4: \<open>for (const keyword of keywords) if (keyword.length > 3) ...\<close>\<close>

fun legacy_keywordSearch :: "editor \<Rightarrow> jsstring list \<Rightarrow> attempt" where
  "legacy_keywordSearch ed [] = Miss"
| "legacy_keywordSearch ed (keyword # rest) =
     (if length keyword > 3
      then (case searchBody ed keyword of
              Hit r \<Rightarrow> Hit r
            | Threw \<Rightarrow> Threw
            | Miss \<Rightarrow> legacy_keywordSearch ed rest)
      else legacy_keywordSearch ed rest)"

definition legacy_findTextInDocument ::
    "editor \<Rightarrow> jsstring \<Rightarrow> Paragraph list option \<Rightarrow> (tier \<times> word_range) option" where
  "legacy_findTextInDocument ed searchText allParagraphs =
     (if length searchText < 3 then None
      else
        case (case allParagraphs of
                None \<Rightarrow> None
              | Some ps \<Rightarrow> findIndex (\<lambda>paragraph. trim (p_text paragraph) = trim searchText) ps) of
          Some i \<Rightarrow> Some (ExactMatch, ParagraphRange i)
        | None \<Rightarrow>
            (case (case allParagraphs of
                     None \<Rightarrow> None
                   | Some ps \<Rightarrow> paragraphIncluding searchText ps) of
               Some i \<Rightarrow> Some (Substring, ParagraphRange i)
             | None \<Rightarrow>
                 (case legacy_shortenedSearch ed searchText of
                    Hit r \<Rightarrow> Some (ShortenedText, r)
                  | Threw \<Rightarrow> None
                  | Miss \<Rightarrow>
                      (case legacy_keywordSearch ed (extractKeywords searchText) of
                         Hit r \<Rightarrow> Some (Keyword, r)
                       | Threw \<Rightarrow> None
                       | Miss \<Rightarrow> None))))"

section \<open>Evaluation results and the session\<close>

text \<open>The members of the enums \<open>EvaluationScope\<close> and \<open>EvaluationCriteria\<close> are strings at
  run time, and the results are deserialized JSON, so a scope or a criterion is a string.\<close>

definition DOCUMENT_WIDE :: jsstring where
  "DOCUMENT_WIDE = ascii ''document_wide''"

definition ALL_SUMMARIES :: jsstring where
  "ALL_SUMMARIES = ascii ''all_summaries''"

definition SUMMARY_PAIRS :: jsstring where
  "SUMMARY_PAIRS = ascii ''summary_pairs''"

definition SUMMARY_WITH_MESSAGES :: jsstring where
  "SUMMARY_WITH_MESSAGES = ascii ''summary_with_messages''"

definition MESSAGES_UNDER_SUMMARY :: jsstring where
  "MESSAGES_UNDER_SUMMARY = ascii ''messages_under_summary''"

definition MESSAGE_WITH_BODIES :: jsstring where
  "MESSAGE_WITH_BODIES = ascii ''message_with_bodies''"

record CriteriaResult =
  criteria :: jsstring
  has_issues :: bool
  issues :: jsstring

record EvaluationResult =
  target_text :: jsstring
  scope :: jsstring
  criteria_results :: "CriteriaResult list"

text \<open>A JavaScript number: a double is a real number, an infinity or NaN.\<close>

datatype jsnum = NaN | Finite real | PosInfinity | NegInfinity

text \<open>The \<open>score\<close> field of the deserialized response: absent, \<open>null\<close>, a number, a boolean,
  or a string, array or object (kept as its JSON text).\<close>

datatype jsvalue = JUndefined | JNull | JNumber jsnum | JBoolean bool | JOther jsstring

record EvaluationResponse =
  status :: jsstring
  message :: jsstring
  results :: "EvaluationResult list"
  score :: jsvalue

text \<open>What \<open>await fetch(...)\<close> and \<open>await response.json()\<close> give: the fetch rejects, or there
  is a response with its \<open>ok\<close> flag and its body (\<open>None\<close> when the body is not JSON).\<close>

datatype fetch_outcome = NetworkError | HttpResponse bool "EvaluationResponse option"

text \<open>The document (its paragraphs, the ranges highlighted so far, the live comments with
  their anchors), the global variables of the task pane, and the two score elements of its
  page (\<open>None\<close> when \<open>getElementById\<close> finds none). The object \<open>commentRanges\<close> is its own
  properties and, when one was assigned through the key \<open>__proto__\<close>, its prototype. The
  log and the styling of the buttons are not part of the state. The deserialized response
  is taken as the interfaces declare it, except for its \<open>score\<close>, which may be any value.\<close>

datatype score_text = Literal jsstring | NumberText jsnum

record state =
  paragraphs :: "Paragraph list"
  highlighted :: "word_range list"
  comments :: "(word_range \<times> jsstring) list"
  evaluationResults :: "EvaluationResult list"
  activeScope :: "jsstring option"
  commentRanges :: "jsstring \<rightharpoonup> word_range"
  commentRangesProto :: "word_range option"
  lastCheckResults :: "EvaluationResponse option"
  scoreDisplay :: "(score_text \<times> jsstring) option"
  scoreMessage :: "jsstring option"

section \<open>Annotation manager\<close>

definition scopeNames :: "(jsstring \<times> jsstring) list" where
  "scopeNames =
     [(DOCUMENT_WIDE, [0x30C9, 0x30AD, 0x30E5, 0x30E1, 0x30F3, 0x30C8, 0x5168, 0x4F53]),
      (ALL_SUMMARIES, [0x3059, 0x3079, 0x3066, 0x306E, 0x30B5, 0x30DE, 0x30EA, 0x30FC]),
      (SUMMARY_PAIRS, [0x30B5, 0x30DE, 0x30EA, 0x30FC, 0x30DA, 0x30A2]),
      (SUMMARY_WITH_MESSAGES, [0x30B5, 0x30DE, 0x30EA, 0x30FC, 0x3068, 0x30E1, 0x30C3, 0x30BB, 0x30FC, 0x30B8]),
      (MESSAGES_UNDER_SUMMARY, [0x30B5, 0x30DE, 0x30EA, 0x30FC, 0x4E0B, 0x306E, 0x30E1, 0x30C3, 0x30BB, 0x30FC, 0x30B8]),
      (MESSAGE_WITH_BODIES, [0x30E1, 0x30C3, 0x30BB, 0x30FC, 0x30B8, 0x3068, 0x672C, 0x6587])]"

text \<open>\<open>scopeNames[scope] || scope\<close>, as the text that the template literals around every call
  make of it. The table is an object literal: a key that is not its own property but
  names a member of \<open>Object.prototype\<close> reads that member, which is truthy, and only a key
  that is neither gives the key itself.\<close>

definition getScopeName :: "editor \<Rightarrow> jsstring \<Rightarrow> jsstring" where
  "getScopeName ed sc =
     (case map_of scopeNames sc of
        Some n \<Rightarrow> n
      | None \<Rightarrow> (case inheritedText ed sc of Some t \<Rightarrow> t | None \<Rightarrow> sc))"

definition criteriaNames :: "(jsstring \<times> jsstring) list" where
  "criteriaNames =
     [(ascii ''rhetorical_expression'', [0x4FEE, 0x8F9E, 0x8868, 0x73FE, 0x306E, 0x78BA, 0x8A8D]),
      (ascii ''previous_discussion_review'',
         [0x524D, 0x56DE, 0x8A0E, 0x8B70, 0x306E, 0x632F, 0x308A, 0x8FD4, 0x308A, 0x306E, 0x6709, 0x7121]),
      (ascii ''scqa_presence'', [0x53, 0x43, 0x51, 0x41, 0x306E, 0x6709, 0x7121]),
      (ascii ''duplicate_transition_conjunctions'',
         [0x8EE2, 0x63DB, 0x306E, 0x63A5, 0x7D9A, 0x8A5E, 0x306E, 0x91CD, 0x8907, 0x5229, 0x7528]),
      (ascii ''conjunction_validity'',
         [0x524D, 0x306E, 0x30B5, 0x30DE, 0x30EA, 0x30FC, 0x6587, 0x3092, 0x8E0F, 0x307E, 0x3048, 0x305F,
          0x3068, 0x304D, 0x306E, 0x3001, 0x63A5, 0x7D9A, 0x8A5E, 0x306E, 0x59A5, 0x5F53, 0x6027]),
      (ascii ''inappropriate_conjunctions'',
         [0x30B5, 0x30DE, 0x30EA, 0x30FC, 0x6587, 0x306B, 0x4E0D, 0x9069, 0x5207, 0x306A, 0x63A5, 0x7D9A,
          0x8A5E, 0x306E, 0x6709, 0x7121]),
      (ascii ''logical_consistency_with_previous'',
         [0x76F4, 0x524D, 0x306E, 0x30B5, 0x30DE, 0x30EA, 0x30FC, 0x3068, 0x306E, 0x8AD6, 0x7406, 0x7684,
          0x6574, 0x5408, 0x6027]),
      (ascii ''sequential_development'', [0x9010, 0x6B21, 0x7684, 0x5C55, 0x958B, 0x306E, 0x8A55, 0x4FA1]),
      (ascii ''conjunction_appropriateness'', [0x63A5, 0x7D9A, 0x8A5E, 0x306E, 0x9069, 0x5207, 0x6027]),
      (ascii ''duplicate_transition_words'',
         [0x8EE2, 0x63DB, 0x306E, 0x63A5, 0x7D9A, 0x8A5E, 0x306E, 0x4E8C, 0x91CD, 0x5229, 0x7528]),
      (ascii ''avoid_unnecessary_numbering'',
         [0x7121, 0x99C4, 0x306A, 0x30CA, 0x30F3, 0x30D0, 0x30EA, 0x30F3, 0x30B0, 0x306E, 0x56DE, 0x907F]),
      (ascii ''message_body_consistency'',
         [0x30E1, 0x30C3, 0x30BB, 0x30FC, 0x30B8, 0x3068, 0x30DC, 0x30C7, 0x30A3, 0x306E, 0x8AD6, 0x7406,
          0x7684, 0x6574, 0x5408, 0x6027])]"

text \<open>\<open>criteriaNames[criteria] || criteria\<close>, read in the same way.\<close>

definition getCriteriaName :: "editor \<Rightarrow> jsstring \<Rightarrow> jsstring" where
  "getCriteriaName ed c =
     (case map_of criteriaNames c of
        Some n \<Rightarrow> n
      | None \<Rightarrow> (case inheritedText ed c of Some t \<Rightarrow> t | None \<Rightarrow> c))"

text \<open>\<open>result.criteria_results.some(cr => cr.has_issues)\<close>\<close>

definition hasIssues :: "EvaluationResult \<Rightarrow> bool" where
  "hasIssues result \<longleftrightarrow> list_ex has_issues (criteria_results result)"

text \<open>The comparison \<open>resultScope === scope || resultScope === scope.toString() ||
  resultScope.toString() === scope.toString()\<close>; \<open>toString\<close> of a string is the string.\<close>

definition isMatchingScope :: "jsstring \<Rightarrow> jsstring \<Rightarrow> bool" where
  "isMatchingScope resultScope sc \<longleftrightarrow> resultScope = sc \<or> resultScope = sc \<or> resultScope = sc"

subsection \<open>Clear all\<close>

text \<open>\<open>removeAllComments\<close>: for every range of the wildcard search, delete the comments the
  range has. An exception is caught and logged, and the caller goes on.\<close>

fun deleteCommentsOf :: "editor \<Rightarrow> word_range list \<Rightarrow> state \<Rightarrow> state" where
  "deleteCommentsOf ed [] st = st"
| "deleteCommentsOf ed (r # rs) st =
     deleteCommentsOf ed rs
       (st\<lparr>comments := filter (\<lambda>c. \<not> rangeHasComment ed r (fst c)) (comments st)\<rparr>)"

definition removeAllComments :: "editor \<Rightarrow> state \<Rightarrow> state" where
  "removeAllComments ed st =
     (case wildcardSearch ed of
        None \<Rightarrow> st
      | Some searchResults \<Rightarrow> deleteCommentsOf ed searchResults st)"

subsection \<open>Apply\<close>

text \<open>The comment body: the scope name in brackets, a line feed, then one entry for each
  failing criterion, joined by two line feeds.\<close>

definition commentText :: "editor \<Rightarrow> jsstring \<Rightarrow> CriteriaResult list \<Rightarrow> jsstring" where
  "commentText ed sc issuesCriteria =
     [0x3010] @ getScopeName ed sc @ [0x3011, 0xA] @
     join [0xA, 0xA]
       (map (\<lambda>cr. [0x3010] @ getCriteriaName ed (criteria cr) @ [0x3011, 0x3A, 0x20] @ issues cr)
          issuesCriteria)"

definition addCommentSafely :: "editor \<Rightarrow> word_range \<Rightarrow> jsstring \<Rightarrow> state \<Rightarrow> state \<times> bool" where
  "addCommentSafely ed r t st =
     (if insertCommentOk ed r t then (st\<lparr>comments := comments st @ [(r, t)]\<rparr>, True)
      else (st, False))"

text \<open>\<open>commentRanges[key] = range\<close>: the key \<open>__proto__\<close> replaces the prototype of the
  object and creates no property.\<close>

definition recordRange :: "jsstring \<Rightarrow> word_range \<Rightarrow> state \<Rightarrow> state" where
  "recordRange key r st =
     (if key = ascii ''__proto__'' then st\<lparr>commentRangesProto := Some r\<rparr>
      else st\<lparr>commentRanges := (commentRanges st)(key \<mapsto> r)\<rparr>)"

text \<open>Highlight the range, attach the comment and record the range under the key
  \<open>`${result.scope}_${issuesCriteria[0].criteria}`\<close>. The second component of the result
  tells whether an exception was thrown (reading \<open>.criteria\<close> of \<open>undefined\<close>).\<close>

definition attachFinding ::
    "editor \<Rightarrow> jsstring \<Rightarrow> EvaluationResult \<Rightarrow> word_range \<Rightarrow> state \<Rightarrow> state \<times> bool" where
  "attachFinding ed sc result r st =
     (let issuesCriteria = filter has_issues (criteria_results result);
          st1 = st\<lparr>highlighted := highlighted st @ [r]\<rparr>;
          added = addCommentSafely ed r (commentText ed sc issuesCriteria) st1
      in if snd added
         then (case issuesCriteria of
                 [] \<Rightarrow> (fst added, True)
               | cr # _ \<Rightarrow>
                   (recordRange (scope result @ [0x5F] @ criteria cr) r (fst added), False))
         else (fst added, False))"

text \<open>One iteration of the loop over the findings. \<open>sc\<close> is the scope the iteration tests and
  names: \<open>result.scope\<close> in \<open>showAllComments\<close>, the requested scope in
  \<open>filterCommentsByScope\<close>. \<open>paragraphs.getFirst()\<close> throws on an empty collection.\<close>

definition annotateFinding :: "editor \<Rightarrow> jsstring \<Rightarrow> EvaluationResult \<Rightarrow> state \<Rightarrow> state \<times> bool" where
  "annotateFinding ed sc result st =
     (if sc = ALL_SUMMARIES \<and> target_text result = pageTitle ed
      then (case paragraphs st of
              [] \<Rightarrow> (st, True)
            | _ # _ \<Rightarrow> attachFinding ed sc result (ParagraphRange 0) st)
      else (case findTextInDocument (target_text result) (paragraphs st) of
              Some found \<Rightarrow> attachFinding ed sc result (snd found) st
            | None \<Rightarrow> (st, False)))"

fun annotateFindings ::
    "editor \<Rightarrow> (EvaluationResult \<Rightarrow> jsstring) \<Rightarrow> EvaluationResult list \<Rightarrow> state \<Rightarrow> state \<times> bool" where
  "annotateFindings ed scopeOf [] st = (st, False)"
| "annotateFindings ed scopeOf (result # rest) st =
     (let step = annotateFinding ed (scopeOf result) result st
      in if snd step then step else annotateFindings ed scopeOf rest (fst step))"

definition showAllComments :: "editor \<Rightarrow> state \<Rightarrow> state" where
  "showAllComments ed st =
     (if evaluationResults st = [] then st
      else
        let st1 = removeAllComments ed st;
            resultsWithIssues = filter hasIssues (evaluationResults st1)
        in if resultsWithIssues = [] then st1
           else fst (annotateFindings ed scope resultsWithIssues (st1\<lparr>commentRanges := Map.empty, commentRangesProto := None\<rparr>)))"

definition filterCommentsByScope :: "editor \<Rightarrow> jsstring \<Rightarrow> state \<Rightarrow> state" where
  "filterCommentsByScope ed sc st =
     (if evaluationResults st = [] then st
      else
        let st1 = removeAllComments ed st;
            filteredResults =
              filter (\<lambda>result. isMatchingScope (scope result) sc \<and> hasIssues result)
                (evaluationResults st1)
        in if filteredResults = [] then st1
           else
             let pass = annotateFindings ed (\<lambda>_. sc) filteredResults (st1\<lparr>commentRanges := Map.empty, commentRangesProto := None\<rparr>)
             in if snd pass then fst pass else (fst pass)\<lparr>activeScope := Some sc\<rparr>)"

section \<open>Scope priority resolver\<close>

definition scopePriority :: "jsstring list" where
  "scopePriority =
     [DOCUMENT_WIDE, ALL_SUMMARIES, SUMMARY_PAIRS, SUMMARY_WITH_MESSAGES,
      MESSAGES_UNDER_SUMMARY, MESSAGE_WITH_BODIES]"

text \<open>The object \<open>scopeHasIssues\<close>, filled by the first loop over \<open>scopePriority\<close>.\<close>

definition scopeHasIssues :: "EvaluationResult list \<Rightarrow> (jsstring \<times> bool) list" where
  "scopeHasIssues rs =
     map (\<lambda>sc. (sc, list_ex (\<lambda>result. isMatchingScope (scope result) sc \<and> hasIssues result) rs))
       scopePriority"

text \<open>The second loop: the first scope of \<open>scopePriority\<close> whose entry is true, or \<open>null\<close>.\<close>

definition highestPriorityScope :: "EvaluationResult list \<Rightarrow> jsstring option" where
  "highestPriorityScope rs =
     List.find (\<lambda>sc. map_of (scopeHasIssues rs) sc = Some True) scopePriority"

definition showHighestPriorityComments :: "editor \<Rightarrow> state \<Rightarrow> state" where
  "showHighestPriorityComments ed st =
     (if evaluationResults st = [] then st
      else (case highestPriorityScope (evaluationResults st) of
              Some sc \<Rightarrow> filterCommentsByScope ed sc st
            | None \<Rightarrow> showAllComments ed st))"

section \<open>Score and the check run\<close>

text \<open>\<open>Number(v)\<close>; \<open>conv\<close> is the runtime's conversion of a string, array or object.\<close>

definition Number :: "(jsstring \<Rightarrow> jsnum) \<Rightarrow> jsvalue \<Rightarrow> jsnum" where
  "Number conv v =
     (case v of
        JUndefined \<Rightarrow> NaN
      | JNull \<Rightarrow> Finite 0
      | JNumber n \<Rightarrow> n
      | JBoolean b \<Rightarrow> Finite (if b then 1 else 0)
      | JOther j \<Rightarrow> conv j)"

text \<open>\<open>Math.round\<close>: the nearest integer, a tie going up.\<close>

definition mathRound :: "jsnum \<Rightarrow> jsnum" where
  "mathRound n = (case n of Finite x \<Rightarrow> Finite (of_int \<lfloor>x + 1 / 2\<rfloor>) | _ \<Rightarrow> n)"

text \<open>\<open>n >= r\<close> for a number \<open>n\<close> and a finite \<open>r\<close>\<close>

definition numAtLeast :: "jsnum \<Rightarrow> real \<Rightarrow> bool" where
  "numAtLeast n r = (case n of Finite x \<Rightarrow> x \<ge> r | PosInfinity \<Rightarrow> True | _ \<Rightarrow> False)"

text \<open>The score the current \<open>run\<close> passes to \<open>updateScore\<close>.\<close>

definition responseScore :: "(jsstring \<Rightarrow> jsnum) \<Rightarrow> jsvalue \<Rightarrow> jsnum" where
  "responseScore conv field =
     (let score = (if field \<noteq> JUndefined \<and> field \<noteq> JNull then field else JNumber (Finite 100));
          n = Number conv score
      in if n = NaN then Finite 100 else n)"

text \<open>The five messages with their colours, best first.\<close>

definition excellentMessage :: jsstring where
  "excellentMessage =
     [0x7D20, 0x6674, 0x3089, 0x3057, 0x3044, 0xFF01, 0x307B, 0x3068, 0x3093, 0x3069, 0x554F, 0x984C,
      0x304C, 0x3042, 0x308A, 0x307E, 0x305B, 0x3093, 0x3002]"

definition goodMessage :: jsstring where
  "goodMessage =
     [0x826F, 0x597D, 0x3067, 0x3059, 0x3002, 0x3044, 0x304F, 0x3064, 0x304B, 0x306E, 0x6539, 0x5584,
      0x70B9, 0x304C, 0x3042, 0x308A, 0x307E, 0x3059, 0x3002]"

definition improvableMessage :: jsstring where
  "improvableMessage =
     [0x6539, 0x5584, 0x306E, 0x4F59, 0x5730, 0x304C, 0x3042, 0x308A, 0x307E, 0x3059, 0x3002]"

definition manyProblemsMessage :: jsstring where
  "manyProblemsMessage =
     [0x591A, 0x304F, 0x306E, 0x554F, 0x984C, 0x70B9, 0x304C, 0x3042, 0x308A, 0x307E, 0x3059, 0x3002,
      0x4FEE, 0x6B63, 0x304C, 0x5FC5, 0x8981, 0x3067, 0x3059, 0x3002]"

definition severeMessage :: jsstring where
  "severeMessage =
     [0x975E, 0x5E38, 0x306B, 0x591A, 0x304F, 0x306E, 0x554F, 0x984C, 0x304C, 0x3042, 0x308A, 0x307E,
      0x3059, 0x3002, 0x5927, 0x5E45, 0x306A, 0x4FEE, 0x6B63, 0x304C, 0x5FC5, 0x8981, 0x3067, 0x3059,
      0x3002]"

definition scoreTier :: "jsnum \<Rightarrow> jsstring \<times> jsstring" where
  "scoreTier n =
     (if numAtLeast n 90 then (excellentMessage, ascii ''#107C10'')
      else if numAtLeast n 70 then (goodMessage, ascii ''#0078D4'')
      else if numAtLeast n 50 then (improvableMessage, ascii ''#FF8C00'')
      else if numAtLeast n 30 then (manyProblemsMessage, ascii ''#E81123'')
      else (severeMessage, ascii ''#A80000''))"

definition updateScore :: "jsnum \<Rightarrow> state \<Rightarrow> state" where
  "updateScore score0 st =
     (if scoreDisplay st \<noteq> None \<and> scoreMessage st \<noteq> None
      then (let score1 = (if score0 = NaN then Finite 100 else score0);
                score2 = mathRound score1
            in st\<lparr>scoreDisplay := Some (NumberText score2, snd (scoreTier score2)),
                  scoreMessage := Some (fst (scoreTier score2))\<rparr>)
      else st)"

text \<open>The part of \<open>run\<close> after \<open>await response.json()\<close>.\<close>

definition applyResponse :: "editor \<Rightarrow> (jsstring \<Rightarrow> jsnum) \<Rightarrow> EvaluationResponse \<Rightarrow> state \<Rightarrow> state" where
  "applyResponse ed conv responseData st =
     (let st1 = st\<lparr>lastCheckResults := Some responseData\<rparr>;
          st2 = updateScore (responseScore conv (score responseData)) st1;
          st3 = st2\<lparr>evaluationResults := results responseData\<rparr>
      in if status responseData = ascii ''success''
         then showHighestPriorityComments ed (removeAllComments ed st3)
         else st3)"

text \<open>The current \<open>run\<close> up to the call of \<open>fetch\<close>: the request it sends, if it sends
  one. The title is the text of \<open>paragraphs.getFirst()\<close>, which throws on an empty
  collection; nothing is sent when \<open>buildBulletPointsData\<close> throws, returns \<open>null\<close> or
  returns no summary.\<close>

definition runRequest :: "state \<Rightarrow> BulletPointsRequest option" where
  "runRequest st =
     (case paragraphs st of
        [] \<Rightarrow> None
      | firstParagraph # _ \<Rightarrow>
          (case buildBulletPointsData (paragraphs st) (p_text firstParagraph) of
             Inl _ \<Rightarrow> None
           | Inr None \<Rightarrow> None
           | Inr (Some bulletPointsData) \<Rightarrow>
               if req_summaries bulletPointsData = [] then None else Some bulletPointsData))"

text \<open>The current \<open>run\<close>. Every exception ends the run in one of its \<open>catch\<close> blocks, which
  only log.\<close>

definition run ::
    "editor \<Rightarrow> (jsstring \<Rightarrow> jsnum) \<Rightarrow> (BulletPointsRequest \<Rightarrow> fetch_outcome) \<Rightarrow> state \<Rightarrow> state" where
  "run ed conv fetch st =
     (case runRequest st of
        None \<Rightarrow> st
      | Some bulletPointsData \<Rightarrow>
          (case fetch bulletPointsData of
             NetworkError \<Rightarrow> st
           | HttpResponse ok body \<Rightarrow>
               if \<not> ok then st
               else (case body of
                       None \<Rightarrow> st
                     | Some responseData \<Rightarrow> applyResponse ed conv responseData st)))"

section \<open>Invariants used in the proofs\<close>

text \<open>The cursors point at the newest objects, and the three arrays list the objects in
  creation order.\<close>

definition builder_inv :: "builder \<Rightarrow> bool" where
  "builder_inv b \<longleftrightarrow>
     summaries b = [0..<length (summaryObjs b)] \<and>
     concat (map messages (summaryObjs b)) = [0..<length (messageObjs b)] \<and>
     concat (map bodies (messageObjs b)) = [0..<length (bodyObjs b)] \<and>
     (case currentSummary b of None \<Rightarrow> summaryObjs b = [] | Some s \<Rightarrow> Suc s = length (summaryObjs b)) \<and>
     (case currentMessage b of None \<Rightarrow> True
      | Some m \<Rightarrow> Suc m = length (messageObjs b) \<and> currentSummary b \<noteq> None)"

text \<open>The output starts with a placeholder Summary whose first Message has content \<open>c\<close>.\<close>

definition rooted :: "jsstring \<Rightarrow> builder \<Rightarrow> bool" where
  "rooted c b \<longleftrightarrow>
     (\<exists>rest. summaries b = 0 # rest) \<and>
     summaryObjs b \<noteq> [] \<and>
     summary_content (summaryObjs b ! 0) = unclassified \<and>
     (\<exists>ms. messages (summaryObjs b ! 0) = 0 # ms) \<and>
     messageObjs b \<noteq> [] \<and>
     message_content (messageObjs b ! 0) = c"

text \<open>The contents of all Message objects and of all Summary objects, in creation order.\<close>

definition messageContents :: "builder \<Rightarrow> jsstring list" where
  "messageContents b = map message_content (messageObjs b)"

definition summaryContents :: "builder \<Rightarrow> jsstring list" where
  "summaryContents b = map summary_content (summaryObjs b)"

text \<open>The task pane as it is loaded, on a document with the given paragraphs: no highlight,
  no comment, no results, and the two score elements as the page has them.\<close>

definition initialState :: "Paragraph list \<Rightarrow> state" where
  "initialState ps =
     \<lparr>paragraphs = ps, highlighted = [], comments = [], evaluationResults = [],
      activeScope = None, commentRanges = Map.empty, commentRangesProto = None,
      lastCheckResults = None,
      scoreDisplay = Some (Literal (ascii ''-''), []),
      scoreMessage = Some [0x8A55, 0x4FA1, 0x3092, 0x5B9F, 0x884C, 0x3057, 0x3066, 0x304F, 0x3060, 0x3055, 0x3044]\<rparr>"

text \<open>A paragraph without indent, and an editor, for the closed theorems.\<close>

definition para :: "jsstring \<Rightarrow> Paragraph" where
  "para t = \<lparr>p_text = t, leftIndent = 0, firstLineIndent = 0\<rparr>"

definition demoEditor :: editor where
  "demoEditor =
     \<lparr>bodySearch = (\<lambda>t. if t = ascii ''abc'' then Some [TextRange 0 3]
                        else if t = ascii ''beta'' then Some [TextRange 7 4, TextRange 20 4] else Some []),
      wildcardSearch = Some [TextRange 0 1],
      rangeHasComment = (\<lambda>r a. True),
      insertCommentOk = (\<lambda>r t. True),
      pageTitle = ascii ''Story Checker'',
      inheritedText = (\<lambda>k. if k = ascii ''constructor'' then Some (ascii ''function Object() { [native code] }'') else None)\<rparr>"

text \<open>The two tests of the first loops: a non-empty paragraph that is classified as a
  bullet, and one that is not.\<close>

definition isBulletParagraph :: "Paragraph \<Rightarrow> bool" where
  "isBulletParagraph p \<longleftrightarrow> trim (p_text p) \<noteq> [] \<and> isBulletPoint p (trim (p_text p))"

definition isPlainParagraph :: "Paragraph \<Rightarrow> bool" where
  "isPlainParagraph p \<longleftrightarrow> trim (p_text p) \<noteq> [] \<and> \<not> isBulletPoint p (trim (p_text p))"

text \<open>What the annotation passes leave alone: the paragraphs, the stored results, the stored
  response and the score elements.\<close>

definition sameSession :: "state \<Rightarrow> state \<Rightarrow> bool" where
  "sameSession st st' \<longleftrightarrow>
     paragraphs st' = paragraphs st \<and>
     evaluationResults st' = evaluationResults st \<and>
     lastCheckResults st' = lastCheckResults st \<and>
     scoreDisplay st' = scoreDisplay st \<and>
     scoreMessage st' = scoreMessage st"

text \<open>The comments that a pass over the findings \<open>rs\<close> attaches on a document with the
  paragraphs \<open>ps\<close> that has no comment.\<close>

definition appliedComments ::
    "editor \<Rightarrow> (EvaluationResult \<Rightarrow> jsstring) \<Rightarrow> EvaluationResult list \<Rightarrow> Paragraph list
       \<Rightarrow> (word_range \<times> jsstring) list" where
  "appliedComments ed f rs ps = comments (fst (annotateFindings ed f rs (initialState ps)))"

text \<open>A finding with one failing criterion on a one-paragraph document, and an editor that
  rejects the wildcard search of \<open>removeAllComments\<close>.\<close>

definition demoFinding :: EvaluationResult where
  "demoFinding =
     \<lparr>target_text = ascii ''abc'', scope = DOCUMENT_WIDE,
      criteria_results =
        [\<lparr>criteria = ascii ''rhetorical_expression'', has_issues = True, issues = ascii ''vague''\<rparr>]\<rparr>"

definition findingState :: state where
  "findingState = (initialState [para (ascii ''abc'')])\<lparr>evaluationResults := [demoFinding]\<rparr>"

definition rejectingEditor :: editor where
  "rejectingEditor = demoEditor\<lparr>wildcardSearch := None\<rparr>"

text \<open>The same document with a comment left by an earlier pass.\<close>

definition staleState :: state where
  "staleState = findingState\<lparr>comments := [(ParagraphRange 0, ascii ''old'')]\<rparr>"

text \<open>A finding of a given scope with one failing criterion, and one with none.\<close>

definition issueIn :: "jsstring \<Rightarrow> EvaluationResult" where
  "issueIn sc =
     \<lparr>target_text = ascii ''abc'', scope = sc,
      criteria_results = [\<lparr>criteria = ascii ''scqa_presence'', has_issues = True, issues = ascii ''none''\<rparr>]\<rparr>"

definition cleanIn :: "jsstring \<Rightarrow> EvaluationResult" where
  "cleanIn sc =
     \<lparr>target_text = ascii ''abc'', scope = sc,
      criteria_results = [\<lparr>criteria = ascii ''scqa_presence'', has_issues = False, issues = []\<rparr>]\<rparr>"

text \<open>A successful response without findings whose score is \<open>null\<close>.\<close>

definition nullScoreResponse :: EvaluationResponse where
  "nullScoreResponse = \<lparr>status = ascii ''success'', message = ascii ''ok'', results = [], score = JNull\<rparr>"

section \<open>Verified properties\<close>

subsection \<open>Hierarchy builder\<close>

lemma builder_inv_empty: "builder_inv emptyBuilder"
  by (simp add: builder_inv_def emptyBuilder_def)

lemma builder_inv_newSummary:
  "builder_inv b \<Longrightarrow> builder_inv ((newSummary c b)\<lparr>currentMessage := None\<rparr>)"
  by (auto simp: builder_inv_def newSummary_def Let_def)

lemma builder_inv_ensureSummary:
  "builder_inv b \<Longrightarrow> builder_inv (ensureSummary b) \<and> currentSummary (ensureSummary b) \<noteq> None"
  by (auto simp: builder_inv_def ensureSummary_def newSummary_def Let_def split: option.splits)

lemma builder_inv_newMessage:
  assumes "builder_inv b" and "newMessage c b = Some b'"
  shows "builder_inv b'"
proof -
  from assms(2) obtain s where s: "currentSummary b = Some s"
    by (auto simp: newMessage_def split: option.splits)
  with assms(1) have len: "Suc s = length (summaryObjs b)"
    by (simp add: builder_inv_def)
  have upd: "concat (map messages ((summaryObjs b)[s := (summaryObjs b ! s)\<lparr>messages := messages (summaryObjs b ! s) @ [length (messageObjs b)]\<rparr>]))
      = concat (map messages (summaryObjs b)) @ [length (messageObjs b)]"
    using len by (cases "summaryObjs b" rule: rev_cases) (auto simp: nth_append)
  from assms s have b': "b' = b\<lparr>messageObjs := messageObjs b @ [\<lparr>message_content = c, bodies = []\<rparr>],
                      currentMessage := Some (length (messageObjs b)),
                      summaryObjs := (summaryObjs b)[s := (summaryObjs b ! s)\<lparr>messages := messages (summaryObjs b ! s) @ [length (messageObjs b)]\<rparr>]\<rparr>"
    by (simp add: newMessage_def Let_def)
  show ?thesis using assms(1) s len upd unfolding b' builder_inv_def by (auto split: option.splits)
qed

lemma newMessage_total: "currentSummary b \<noteq> None \<Longrightarrow> \<exists>b'. newMessage c b = Some b' \<and> currentMessage b' \<noteq> None"
  by (auto simp: newMessage_def Let_def split: option.splits)

lemma builder_inv_pushBody:
  assumes "builder_inv b" and "pushBody c b = Some b'"
  shows "builder_inv b'"
proof -
  from assms(2) obtain m where m: "currentMessage b = Some m"
    by (auto simp: pushBody_def split: option.splits)
  with assms(1) have len: "Suc m = length (messageObjs b)"
    by (simp add: builder_inv_def)
  have upd: "concat (map bodies ((messageObjs b)[m := (messageObjs b ! m)\<lparr>bodies := bodies (messageObjs b ! m) @ [length (bodyObjs b)]\<rparr>]))
      = concat (map bodies (messageObjs b)) @ [length (bodyObjs b)]"
    using len by (cases "messageObjs b" rule: rev_cases) (auto simp: nth_append)
  from assms m have b': "b' = b\<lparr>bodyObjs := bodyObjs b @ [c],
        messageObjs := (messageObjs b)[m := (messageObjs b ! m)\<lparr>bodies := bodies (messageObjs b ! m) @ [length (bodyObjs b)]\<rparr>]\<rparr>"
    by (simp add: pushBody_def Let_def)
  show ?thesis using assms(1) m len upd unfolding b' builder_inv_def by (auto split: option.splits)
qed

lemma pushBody_total: "currentMessage b \<noteq> None \<Longrightarrow> \<exists>b'. pushBody c b = Some b'"
  by (auto simp: pushBody_def Let_def split: option.splits)

lemma processBullet_inv:
  assumes "builder_inv b"
  shows "\<exists>b'. processBullet bp b = Some b' \<and> builder_inv b'"
proof -
  note es = builder_inv_ensureSummary [OF assms]
  consider (empty) "bp_text bp = []"
    | (l0) "bp_text bp \<noteq> []" "bp_level bp = 0"
    | (l1) "bp_text bp \<noteq> []" "bp_level bp = 1"
    | (l2a) "bp_text bp \<noteq> []" "bp_level bp = 2" "currentMessage b = None"
    | (l2b) "bp_text bp \<noteq> []" "bp_level bp = 2" "currentMessage b \<noteq> None"
    | (other) "bp_text bp \<noteq> []" "bp_level bp > 2"
    by (cases "bp_level bp = 0"; cases "bp_level bp = 1"; cases "bp_level bp = 2") auto
  then show ?thesis
  proof cases
    case empty
    then show ?thesis using assms by (simp add: processBullet_def)
  next
    case l0
    then show ?thesis using builder_inv_newSummary [OF assms] by (simp add: processBullet_def)
  next
    case l1
    from es newMessage_total obtain b' where "newMessage (bp_text bp) (ensureSummary b) = Some b'"
      by blast
    with l1 es builder_inv_newMessage show ?thesis by (auto simp: processBullet_def)
  next
    case l2a
    from es newMessage_total obtain b1 where b1: "newMessage unclassified (ensureSummary b) = Some b1"
      "currentMessage b1 \<noteq> None"
      by blast
    with es have inv1: "builder_inv b1" using builder_inv_newMessage by blast
    from b1 pushBody_total obtain b2 where b2: "pushBody (bp_text bp) b1 = Some b2" by blast
    with inv1 have "builder_inv b2" using builder_inv_pushBody by blast
    with l2a b1 b2 show ?thesis by (simp add: processBullet_def)
  next
    case l2b
    from l2b pushBody_total obtain b2 where b2: "pushBody (bp_text bp) b = Some b2" by blast
    with assms have "builder_inv b2" using builder_inv_pushBody by blast
    with l2b b2 show ?thesis by (auto simp: processBullet_def)
  next
    case other
    then show ?thesis using assms by (simp add: processBullet_def)
  qed
qed

lemma processBullets_inv:
  "builder_inv b \<Longrightarrow> \<exists>b'. processBullets bps b = Some b' \<and> builder_inv b'"
proof (induction bps arbitrary: b)
  case Nil
  then show ?case by simp
next
  case (Cons bp bps)
  from processBullet_inv [OF Cons.prems] obtain b1 where "processBullet bp b = Some b1" "builder_inv b1"
    by blast
  with Cons.IH [of b1] show ?case by simp
qed

lemma builder_inv_reachable:
  assumes "builder_inv b"
  shows "summaries b = [0..<length (summaryObjs b)]"
    and "reachableMessages b = [0..<length (messageObjs b)]"
    and "reachableBodies b = [0..<length (bodyObjs b)]"
proof -
  show s: "summaries b = [0..<length (summaryObjs b)]" using assms by (simp add: builder_inv_def)
  have "map (\<lambda>s. messages (summaryObjs b ! s)) [0..<length (summaryObjs b)] = map messages (summaryObjs b)"
    by (rule nth_equalityI) simp_all
  with s assms show m: "reachableMessages b = [0..<length (messageObjs b)]"
    by (simp add: reachableMessages_def builder_inv_def)
  have "map (\<lambda>m. bodies (messageObjs b ! m)) [0..<length (messageObjs b)] = map bodies (messageObjs b)"
    by (rule nth_equalityI) simp_all
  with m assms show "reachableBodies b = [0..<length (bodyObjs b)]"
    by (simp add: reachableBodies_def builder_inv_def)
qed


lemma processBullet_bodyObjs:
  "processBullet bp b = Some b' \<Longrightarrow>
   bodyObjs b' = bodyObjs b @ (if bp_text bp \<noteq> [] \<and> bp_level bp = 2 then [bp_text bp] else [])"
  by (auto simp: processBullet_def newMessage_def pushBody_def ensureSummary_def newSummary_def Let_def
      split: if_splits option.splits Option.bind_splits)

lemma processBullets_bodyObjs:
  "processBullets bps b = Some b' \<Longrightarrow>
   bodyObjs b' = bodyObjs b @ map bp_text (filter (\<lambda>bp. bp_text bp \<noteq> [] \<and> bp_level bp = 2) bps)"
proof (induction bps arbitrary: b)
  case Nil
  then show ?case by simp
next
  case (Cons bp bps)
  from Cons.prems obtain b1 where b1: "processBullet bp b = Some b1" "processBullets bps b1 = Some b'"
    by (auto split: Option.bind_splits)
  from processBullet_bodyObjs [OF b1(1)] Cons.IH [OF b1(2)] show ?case by simp
qed

lemma concat_concat_map:
  "concat (map (\<lambda>s. concat (map g (f s))) xs) = concat (map g (concat (map f xs)))"
  by (induction xs) auto

lemma tree_bodies:
  "concat (map (\<lambda>s. concat (map msg_bodies (sum_messages s))) (readSummaries b))
     = map (readBody b) (reachableBodies b)"
proof -
  have "concat (map (\<lambda>s. concat (map msg_bodies (sum_messages s))) (readSummaries b))
      = concat (map (\<lambda>s. concat (map (\<lambda>m. map (readBody b) (bodies (messageObjs b ! m)))
                                   (messages (summaryObjs b ! s)))) (summaries b))"
    by (simp add: readSummaries_def readSummary_def readMessage_def comp_def)
  also have "\<dots> = concat (map (\<lambda>m. map (readBody b) (bodies (messageObjs b ! m))) (reachableMessages b))"
    unfolding reachableMessages_def by (rule concat_concat_map)
  also have "\<dots> = map (readBody b) (reachableBodies b)"
    by (simp add: reachableBodies_def map_concat comp_def)
  finally show ?thesis .
qed

lemma map_update_same:
  assumes "f x = f (xs ! i)"
  shows "map f (xs[i := x]) = map f xs"
proof (cases "i < length xs")
  case True
  with assms show ?thesis by (simp add: map_update list_update_same_conv)
next
  case False
  then have "xs[i := x] = xs" by (simp add: list_update_beyond)
  then show ?thesis by simp
qed

lemma contents_newSummary:
  "messageContents (newSummary c b) = messageContents b"
  "summaryContents (newSummary c b) = summaryContents b @ [c]"
  by (simp_all add: messageContents_def summaryContents_def newSummary_def Let_def)

lemma contents_ensureSummary:
  "messageContents (ensureSummary b) = messageContents b"
  "\<exists>ys. summaryContents (ensureSummary b) = summaryContents b @ ys"
  by (simp_all add: ensureSummary_def contents_newSummary)

lemma contents_newMessage:
  assumes "newMessage c b = Some b'"
  shows "messageContents b' = messageContents b @ [c]"
    and "summaryContents b' = summaryContents b"
proof -
  from assms obtain s where s: "currentSummary b = Some s"
    by (auto simp: newMessage_def split: option.splits)
  from assms s have b': "b' = b\<lparr>messageObjs := messageObjs b @ [\<lparr>message_content = c, bodies = []\<rparr>],
                      currentMessage := Some (length (messageObjs b)),
                      summaryObjs := (summaryObjs b)[s := (summaryObjs b ! s)\<lparr>messages := messages (summaryObjs b ! s) @ [length (messageObjs b)]\<rparr>]\<rparr>"
    by (simp add: newMessage_def Let_def)
  show "messageContents b' = messageContents b @ [c]"
    unfolding b' by (simp add: messageContents_def)
  show "summaryContents b' = summaryContents b"
    unfolding b' by (simp add: summaryContents_def map_update_same)
qed

lemma contents_pushBody:
  assumes "pushBody c b = Some b'"
  shows "messageContents b' = messageContents b"
    and "summaryContents b' = summaryContents b"
proof -
  from assms obtain m where m: "currentMessage b = Some m"
    by (auto simp: pushBody_def split: option.splits)
  from assms m have b': "b' = b\<lparr>bodyObjs := bodyObjs b @ [c],
        messageObjs := (messageObjs b)[m := (messageObjs b ! m)\<lparr>bodies := bodies (messageObjs b ! m) @ [length (bodyObjs b)]\<rparr>]\<rparr>"
    by (simp add: pushBody_def Let_def)
  show "messageContents b' = messageContents b"
    unfolding b' by (simp add: messageContents_def map_update_same)
  show "summaryContents b' = summaryContents b"
    unfolding b' by (simp add: summaryContents_def)
qed

lemma contents_processBullet:
  assumes "processBullet bp b = Some b'"
  shows "\<exists>xs ys. messageContents b' = messageContents b @ xs
           \<and> summaryContents b' = summaryContents b @ ys
           \<and> (bp_text bp \<noteq> [] \<and> bp_level bp = 1 \<longrightarrow> bp_text bp \<in> set xs)
           \<and> (bp_text bp \<noteq> [] \<and> bp_level bp = 0 \<longrightarrow> bp_text bp \<in> set ys)"
proof -
  from contents_ensureSummary(2) obtain ys0
    where es: "summaryContents (ensureSummary b) = summaryContents b @ ys0" by blast
  note em = contents_ensureSummary(1) [of b]
  consider (empty) "bp_text bp = []"
    | (l0) "bp_text bp \<noteq> []" "bp_level bp = 0"
    | (l1) "bp_text bp \<noteq> []" "bp_level bp = 1"
    | (l2a) "bp_text bp \<noteq> []" "bp_level bp = 2" "currentMessage b = None"
    | (l2b) "bp_text bp \<noteq> []" "bp_level bp = 2" "currentMessage b \<noteq> None"
    | (other) "bp_text bp \<noteq> []" "bp_level bp > 2"
    by (cases "bp_level bp = 0"; cases "bp_level bp = 1"; cases "bp_level bp = 2") auto
  then show ?thesis
  proof cases
    case empty
    with assms have "b' = b" by (simp add: processBullet_def)
    with empty show ?thesis by simp
  next
    case l0
    with assms have "b' = (newSummary (bp_text bp) b)\<lparr>currentMessage := None\<rparr>"
      by (simp add: processBullet_def)
    then have "messageContents b' = messageContents b @ []"
      and "summaryContents b' = summaryContents b @ [bp_text bp]"
      using contents_newSummary [of "bp_text bp" b]
      by (simp_all add: messageContents_def summaryContents_def)
    with l0 show ?thesis by (intro exI [of _ "[]"] exI [of _ "[bp_text bp]"]) simp
  next
    case l1
    with assms have nm: "newMessage (bp_text bp) (ensureSummary b) = Some b'"
      by (simp add: processBullet_def)
    from contents_newMessage [OF nm] em es
    have "messageContents b' = messageContents b @ [bp_text bp]"
      and "summaryContents b' = summaryContents b @ ys0" by simp_all
    with l1 show ?thesis by (intro exI [of _ "[bp_text bp]"] exI [of _ ys0]) simp
  next
    case l2a
    with assms obtain b1 where b1: "newMessage unclassified (ensureSummary b) = Some b1"
      and b2: "pushBody (bp_text bp) b1 = Some b'"
      by (auto simp: processBullet_def split: Option.bind_splits)
    from contents_newMessage [OF b1] contents_pushBody [OF b2] em es
    have "messageContents b' = messageContents b @ [unclassified]"
      and "summaryContents b' = summaryContents b @ ys0" by simp_all
    with l2a show ?thesis by (intro exI [of _ "[unclassified]"] exI [of _ ys0]) simp
  next
    case l2b
    with assms have "pushBody (bp_text bp) b = Some b'" by (auto simp: processBullet_def)
    from contents_pushBody [OF this]
    have "messageContents b' = messageContents b @ []"
      and "summaryContents b' = summaryContents b @ []" by simp_all
    with l2b show ?thesis by (intro exI [of _ "[]"]) simp
  next
    case other
    with assms have "b' = b" by (simp add: processBullet_def)
    with other show ?thesis by simp
  qed
qed

lemma contents_processBullets:
  assumes "processBullets bps b = Some b'"
  shows "set (messageContents b) \<subseteq> set (messageContents b')
       \<and> set (summaryContents b) \<subseteq> set (summaryContents b')
       \<and> (\<forall>bp\<in>set bps. bp_text bp \<noteq> [] \<and> bp_level bp = 1 \<longrightarrow> bp_text bp \<in> set (messageContents b'))
       \<and> (\<forall>bp\<in>set bps. bp_text bp \<noteq> [] \<and> bp_level bp = 0 \<longrightarrow> bp_text bp \<in> set (summaryContents b'))"
  using assms
proof (induction bps arbitrary: b)
  case Nil
  then show ?case by simp
next
  case (Cons bp bps)
  from Cons.prems obtain b1 where b1: "processBullet bp b = Some b1" "processBullets bps b1 = Some b'"
    by (auto split: Option.bind_splits)
  from contents_processBullet [OF b1(1)] obtain xs ys
    where step: "messageContents b1 = messageContents b @ xs" "summaryContents b1 = summaryContents b @ ys"
      "bp_text bp \<noteq> [] \<and> bp_level bp = 1 \<longrightarrow> bp_text bp \<in> set xs"
      "bp_text bp \<noteq> [] \<and> bp_level bp = 0 \<longrightarrow> bp_text bp \<in> set ys"
    by blast
  from Cons.IH [OF b1(2)] have ih:
    "set (messageContents b1) \<subseteq> set (messageContents b')"
    "set (summaryContents b1) \<subseteq> set (summaryContents b')"
    "\<forall>bp\<in>set bps. bp_text bp \<noteq> [] \<and> bp_level bp = 1 \<longrightarrow> bp_text bp \<in> set (messageContents b')"
    "\<forall>bp\<in>set bps. bp_text bp \<noteq> [] \<and> bp_level bp = 0 \<longrightarrow> bp_text bp \<in> set (summaryContents b')"
    by blast+
  from step(1) ih(1) have m: "set (messageContents b) \<subseteq> set (messageContents b')"
    "set xs \<subseteq> set (messageContents b')" by auto
  from step(2) ih(2) have s: "set (summaryContents b) \<subseteq> set (summaryContents b')"
    "set ys \<subseteq> set (summaryContents b')" by auto
  from m s step(3,4) ih(3,4) show ?case by auto
qed

lemma concat_map_map: "concat (map (\<lambda>s. map f (g s)) xs) = map f (concat (map g xs))"
  by (induction xs) auto

lemma tree_messages:
  "concat (map sum_messages (readSummaries b)) = map (readMessage b) (reachableMessages b)"
proof -
  have "concat (map sum_messages (readSummaries b))
      = concat (map (\<lambda>s. map (readMessage b) (messages (summaryObjs b ! s))) (summaries b))"
    by (simp add: readSummaries_def readSummary_def comp_def)
  also have "\<dots> = map (readMessage b) (reachableMessages b)"
    unfolding reachableMessages_def by (rule concat_map_map)
  finally show ?thesis .
qed

lemma tree_message_contents:
  assumes "builder_inv b"
  shows "map msg_content (concat (map sum_messages (readSummaries b))) = messageContents b"
proof -
  have "map msg_content (map (readMessage b) [0..<length (messageObjs b)]) = map message_content (messageObjs b)"
    by (rule nth_equalityI) (simp_all add: readMessage_def)
  with builder_inv_reachable(2) [OF assms] show ?thesis
    by (simp add: tree_messages messageContents_def)
qed

lemma tree_summary_contents:
  assumes "builder_inv b"
  shows "map sum_content (readSummaries b) = summaryContents b"
proof -
  have "map sum_content (map (readSummary b) [0..<length (summaryObjs b)]) = map summary_content (summaryObjs b)"
    by (rule nth_equalityI) (simp_all add: readSummary_def)
  with builder_inv_reachable(1) [OF assms] show ?thesis
    by (simp add: readSummaries_def summaryContents_def)
qed

lemma in_tree_message:
  assumes "c \<in> set (map msg_content (concat (map sum_messages tree)))"
  shows "\<exists>s\<in>set tree. \<exists>m\<in>set (sum_messages s). msg_content m = c"
  using assms by auto

lemma in_tree_body:
  assumes "x \<in> set (concat (map (\<lambda>s. concat (map msg_bodies (sum_messages s))) tree))"
  shows "\<exists>s\<in>set tree. \<exists>m\<in>set (sum_messages s). x \<in> set (msg_bodies m)"
  using assms by auto

text \<open>
  Claim C1. Whatever the sequence of bullet candidates, the builder loop ends without an
  exception and leaves no orphan in the serialized tree: every level-0 candidate with a
  non-empty text is the content of a Summary of the tree, every such level-1 candidate is
  the content of a Message inside a Summary of the tree, and every such level-2 candidate
  is a Body inside a Message inside a Summary of the tree, also when level-1 or level-2
  candidates come before any level-0 candidate. The bodies of the tree, in reading order,
  are exactly the level-2 candidates. In the store, the output array holds every Summary
  object ever created, and the Messages and Bodies reachable from it are all the Message
  and Body objects ever created, each once and in creation order.
\<close>

theorem hierarchy_no_orphans:
  "\<exists>b. processBullets bps emptyBuilder = Some b
     \<and> (\<forall>bp\<in>set bps. bp_text bp \<noteq> [] \<and> bp_level bp = 0 \<longrightarrow>
           (\<exists>s\<in>set (readSummaries b). sum_content s = bp_text bp))
     \<and> (\<forall>bp\<in>set bps. bp_text bp \<noteq> [] \<and> bp_level bp = 1 \<longrightarrow>
           (\<exists>s\<in>set (readSummaries b). \<exists>m\<in>set (sum_messages s). msg_content m = bp_text bp))
     \<and> (\<forall>bp\<in>set bps. bp_text bp \<noteq> [] \<and> bp_level bp = 2 \<longrightarrow>
           (\<exists>s\<in>set (readSummaries b). \<exists>m\<in>set (sum_messages s). Body (bp_text bp) \<in> set (msg_bodies m)))
     \<and> concat (map (\<lambda>s. concat (map msg_bodies (sum_messages s))) (readSummaries b))
         = map (\<lambda>bp. Body (bp_text bp)) (filter (\<lambda>bp. bp_text bp \<noteq> [] \<and> bp_level bp = 2) bps)
     \<and> summaries b = [0..<length (summaryObjs b)]
     \<and> reachableMessages b = [0..<length (messageObjs b)]
     \<and> reachableBodies b = [0..<length (bodyObjs b)]"
proof -
  from processBullets_inv [OF builder_inv_empty] obtain b
    where b: "processBullets bps emptyBuilder = Some b" and inv: "builder_inv b"
    by blast
  note reach = builder_inv_reachable [OF inv]
  note cont = contents_processBullets [OF b]
  have objs: "bodyObjs b = map bp_text (filter (\<lambda>bp. bp_text bp \<noteq> [] \<and> bp_level bp = 2) bps)"
    using processBullets_bodyObjs [OF b] by (simp add: emptyBuilder_def)
  have "map (readBody b) [0..<length (bodyObjs b)] = map Body (bodyObjs b)"
    by (rule nth_equalityI) (simp_all add: readBody_def)
  with objs have "map (readBody b) (reachableBodies b)
      = map (\<lambda>bp. Body (bp_text bp)) (filter (\<lambda>bp. bp_text bp \<noteq> [] \<and> bp_level bp = 2) bps)"
    by (simp add: reach(3) comp_def)
  then have bodies: "concat (map (\<lambda>s. concat (map msg_bodies (sum_messages s))) (readSummaries b))
      = map (\<lambda>bp. Body (bp_text bp)) (filter (\<lambda>bp. bp_text bp \<noteq> [] \<and> bp_level bp = 2) bps)"
    by (simp add: tree_bodies)
  have l0: "\<forall>bp\<in>set bps. bp_text bp \<noteq> [] \<and> bp_level bp = 0 \<longrightarrow>
           (\<exists>s\<in>set (readSummaries b). sum_content s = bp_text bp)"
  proof (intro ballI impI)
    fix bp assume "bp \<in> set bps" "bp_text bp \<noteq> [] \<and> bp_level bp = 0"
    with cont have "bp_text bp \<in> set (summaryContents b)" by blast
    then have "bp_text bp \<in> set (map sum_content (readSummaries b))"
      by (simp only: tree_summary_contents [OF inv])
    then show "\<exists>s\<in>set (readSummaries b). sum_content s = bp_text bp" by auto
  qed
  have l1: "\<forall>bp\<in>set bps. bp_text bp \<noteq> [] \<and> bp_level bp = 1 \<longrightarrow>
           (\<exists>s\<in>set (readSummaries b). \<exists>m\<in>set (sum_messages s). msg_content m = bp_text bp)"
  proof (intro ballI impI)
    fix bp assume "bp \<in> set bps" "bp_text bp \<noteq> [] \<and> bp_level bp = 1"
    with cont have "bp_text bp \<in> set (messageContents b)" by blast
    then have "bp_text bp \<in> set (map msg_content (concat (map sum_messages (readSummaries b))))"
      by (simp only: tree_message_contents [OF inv])
    then show "\<exists>s\<in>set (readSummaries b). \<exists>m\<in>set (sum_messages s). msg_content m = bp_text bp"
      by (rule in_tree_message)
  qed
  have l2: "\<forall>bp\<in>set bps. bp_text bp \<noteq> [] \<and> bp_level bp = 2 \<longrightarrow>
           (\<exists>s\<in>set (readSummaries b). \<exists>m\<in>set (sum_messages s). Body (bp_text bp) \<in> set (msg_bodies m))"
  proof (intro ballI impI)
    fix bp assume "bp \<in> set bps" "bp_text bp \<noteq> [] \<and> bp_level bp = 2"
    then have "Body (bp_text bp) \<in> set (map (\<lambda>bp. Body (bp_text bp)) (filter (\<lambda>bp. bp_text bp \<noteq> [] \<and> bp_level bp = 2) bps))"
      by auto
    then have "Body (bp_text bp) \<in> set (concat (map (\<lambda>s. concat (map msg_bodies (sum_messages s))) (readSummaries b)))"
      by (simp only: bodies)
    then show "\<exists>s\<in>set (readSummaries b). \<exists>m\<in>set (sum_messages s). Body (bp_text bp) \<in> set (msg_bodies m)"
      by (rule in_tree_body)
  qed
  from b l0 l1 l2 bodies reach show ?thesis by blast
qed

text \<open>The orphans first: a level-2, then a level-1, then a level-0 candidate.\<close>

theorem hierarchy_no_orphans_witness:
  "\<exists>b. processBullets
          [\<lparr>bp_text = ascii ''b'', bp_level = 2\<rparr>, \<lparr>bp_text = ascii ''m'', bp_level = 1\<rparr>,
           \<lparr>bp_text = ascii ''s'', bp_level = 0\<rparr>] emptyBuilder = Some b
     \<and> (\<exists>s\<in>set (readSummaries b). sum_content s = ascii ''s'')
     \<and> (\<exists>s\<in>set (readSummaries b). \<exists>m\<in>set (sum_messages s). msg_content m = ascii ''m'')
     \<and> (\<exists>s\<in>set (readSummaries b). \<exists>m\<in>set (sum_messages s). Body (ascii ''b'') \<in> set (msg_bodies m))"
proof -
  let ?b2 = "\<lparr>bp_text = ascii ''b'', bp_level = 2\<rparr>"
  let ?b1 = "\<lparr>bp_text = ascii ''m'', bp_level = 1\<rparr>"
  let ?b0 = "\<lparr>bp_text = ascii ''s'', bp_level = 0\<rparr>"
  from hierarchy_no_orphans [of "[?b2, ?b1, ?b0]"] obtain b
    where b: "processBullets [?b2, ?b1, ?b0] emptyBuilder = Some b"
      and l0: "\<forall>bp\<in>set [?b2, ?b1, ?b0]. bp_text bp \<noteq> [] \<and> bp_level bp = 0 \<longrightarrow>
           (\<exists>s\<in>set (readSummaries b). sum_content s = bp_text bp)"
      and l1: "\<forall>bp\<in>set [?b2, ?b1, ?b0]. bp_text bp \<noteq> [] \<and> bp_level bp = 1 \<longrightarrow>
           (\<exists>s\<in>set (readSummaries b). \<exists>m\<in>set (sum_messages s). msg_content m = bp_text bp)"
      and l2: "\<forall>bp\<in>set [?b2, ?b1, ?b0]. bp_text bp \<noteq> [] \<and> bp_level bp = 2 \<longrightarrow>
           (\<exists>s\<in>set (readSummaries b). \<exists>m\<in>set (sum_messages s). Body (bp_text bp) \<in> set (msg_bodies m))"
    by blast
  have t: "ascii ''s'' \<noteq> []" "ascii ''m'' \<noteq> []" "ascii ''b'' \<noteq> []" by (simp_all add: ascii_def)
  from l0 t have r0: "\<exists>s\<in>set (readSummaries b). sum_content s = ascii ''s''" by simp
  from l1 t have r1: "\<exists>s\<in>set (readSummaries b). \<exists>m\<in>set (sum_messages s). msg_content m = ascii ''m''" by simp
  from l2 t have r2: "\<exists>s\<in>set (readSummaries b). \<exists>m\<in>set (sum_messages s). Body (ascii ''b'') \<in> set (msg_bodies m)" by simp
  from b r0 r1 r2 show ?thesis by blast
qed

lemma processBullets_append:
  "processBullets (xs @ ys) b = Option.bind (processBullets xs b) (processBullets ys)"
  by (induction xs arbitrary: b) (auto split: Option.bind_splits)

lemma processBullets_empty_texts:
  "\<forall>p\<in>set pre. bp_text p = [] \<Longrightarrow> processBullets pre b = Some b"
  by (induction pre) (auto simp: processBullet_def)

lemma first_message_rooted:
  assumes "bp_text c \<noteq> []" and "bp_level c = 1"
  shows "\<exists>b. processBullet c emptyBuilder = Some b \<and> rooted (bp_text c) b"
  using assms
  by (simp add: processBullet_def ensureSummary_def newSummary_def newMessage_def emptyBuilder_def
      rooted_def Let_def)

lemma rooted_newSummary: "rooted c b \<Longrightarrow> rooted c (newSummary d b)"
  by (auto simp: rooted_def newSummary_def Let_def nth_append)

lemma rooted_currentMessage: "rooted c b \<Longrightarrow> rooted c (b\<lparr>currentMessage := x\<rparr>)"
  by (simp add: rooted_def)

lemma rooted_ensureSummary: "rooted c b \<Longrightarrow> rooted c (ensureSummary b)"
  by (simp add: ensureSummary_def rooted_newSummary)

lemma rooted_newMessage:
  assumes "rooted c b" and "newMessage d b = Some b'"
  shows "rooted c b'"
proof -
  from assms(2) obtain s where s: "currentSummary b = Some s"
    by (auto simp: newMessage_def split: option.splits)
  from assms(2) s have b': "b' = b\<lparr>messageObjs := messageObjs b @ [\<lparr>message_content = d, bodies = []\<rparr>],
                      currentMessage := Some (length (messageObjs b)),
                      summaryObjs := (summaryObjs b)[s := (summaryObjs b ! s)\<lparr>messages := messages (summaryObjs b ! s) @ [length (messageObjs b)]\<rparr>]\<rparr>"
    by (simp add: newMessage_def Let_def)
  show ?thesis
  proof (cases "s = 0")
    case True
    with assms(1) show ?thesis unfolding b' rooted_def by (auto simp: nth_append)
  next
    case False
    with assms(1) show ?thesis unfolding b' rooted_def by (auto simp: nth_append)
  qed
qed

lemma rooted_pushBody:
  assumes "rooted c b" and "pushBody d b = Some b'"
  shows "rooted c b'"
proof -
  from assms(2) obtain m where m: "currentMessage b = Some m"
    by (auto simp: pushBody_def split: option.splits)
  from assms(2) m have b': "b' = b\<lparr>bodyObjs := bodyObjs b @ [d],
        messageObjs := (messageObjs b)[m := (messageObjs b ! m)\<lparr>bodies := bodies (messageObjs b ! m) @ [length (bodyObjs b)]\<rparr>]\<rparr>"
    by (simp add: pushBody_def Let_def)
  show ?thesis
  proof (cases "m = 0")
    case True
    with assms(1) show ?thesis unfolding b' rooted_def by auto
  next
    case False
    with assms(1) show ?thesis unfolding b' rooted_def by auto
  qed
qed

lemma rooted_processBullet:
  assumes "rooted c b" and "processBullet bp b = Some b'"
  shows "rooted c b'"
proof -
  note es = rooted_ensureSummary [OF assms(1)]
  consider (empty) "bp_text bp = []"
    | (l0) "bp_text bp \<noteq> []" "bp_level bp = 0"
    | (l1) "bp_text bp \<noteq> []" "bp_level bp = 1"
    | (l2a) "bp_text bp \<noteq> []" "bp_level bp = 2" "currentMessage b = None"
    | (l2b) "bp_text bp \<noteq> []" "bp_level bp = 2" "currentMessage b \<noteq> None"
    | (other) "bp_text bp \<noteq> []" "bp_level bp > 2"
    by (cases "bp_level bp = 0"; cases "bp_level bp = 1"; cases "bp_level bp = 2") auto
  then show ?thesis
  proof cases
    case empty
    with assms show ?thesis by (simp add: processBullet_def)
  next
    case l0
    with assms(2) have "b' = (newSummary (bp_text bp) b)\<lparr>currentMessage := None\<rparr>"
      by (simp add: processBullet_def)
    with assms(1) show ?thesis by (simp add: rooted_newSummary rooted_currentMessage)
  next
    case l1
    with assms(2) have "newMessage (bp_text bp) (ensureSummary b) = Some b'"
      by (simp add: processBullet_def)
    from rooted_newMessage [OF es this] show ?thesis .
  next
    case l2a
    with assms(2) obtain b1 where b1: "newMessage unclassified (ensureSummary b) = Some b1"
      and b2: "pushBody (bp_text bp) b1 = Some b'"
      by (auto simp: processBullet_def split: Option.bind_splits)
    from rooted_pushBody [OF rooted_newMessage [OF es b1] b2] show ?thesis .
  next
    case l2b
    with assms(2) have "pushBody (bp_text bp) b = Some b'"
      by (auto simp: processBullet_def)
    from rooted_pushBody [OF assms(1) this] show ?thesis .
  next
    case other
    with assms show ?thesis by (simp add: processBullet_def)
  qed
qed

lemma rooted_processBullets:
  "rooted c b \<Longrightarrow> processBullets bps b = Some b' \<Longrightarrow> rooted c b'"
proof (induction bps arbitrary: b)
  case Nil
  then show ?case by simp
next
  case (Cons bp bps)
  from Cons.prems(2) obtain b1 where b1: "processBullet bp b = Some b1" "processBullets bps b1 = Some b'"
    by (auto split: Option.bind_splits)
  from rooted_processBullet [OF Cons.prems(1) b1(1)] Cons.IH b1(2) show ?case by blast
qed

lemma rooted_tree:
  assumes "rooted c b"
  shows "\<exists>bs ms rest. readSummaries b = Summary unclassified (Message c bs # ms) # rest"
proof -
  from assms obtain rest ms where r: "summaries b = 0 # rest" "messages (summaryObjs b ! 0) = 0 # ms"
    "summary_content (summaryObjs b ! 0) = unclassified" "message_content (messageObjs b ! 0) = c"
    by (auto simp: rooted_def)
  then show ?thesis
    by (simp add: readSummaries_def readSummary_def readMessage_def)
qed

text \<open>
  Claim C5. When the first candidate with a non-empty text has level 1 (every candidate
  before it has an empty text, so no Summary exists yet), the builder creates a Summary
  whose content is the placeholder and pushes it first. In the serialized tree the first
  Summary has the placeholder content, and its first Message is the one of that
  candidate.
\<close>

theorem orphan_message_gets_placeholder_summary:
  assumes "\<forall>p\<in>set pre. bp_text p = []" and "bp_text c \<noteq> []" and "bp_level c = 1"
  shows "\<exists>b bs ms rest. processBullets (pre @ c # post) emptyBuilder = Some b
           \<and> readSummaries b = Summary unclassified (Message (bp_text c) bs # ms) # rest"
proof -
  from first_message_rooted [OF assms(2,3)] obtain b1
    where b1: "processBullet c emptyBuilder = Some b1" "rooted (bp_text c) b1"
    by blast
  from processBullets_inv [OF builder_inv_empty, of "pre @ c # post"] obtain b
    where b: "processBullets (pre @ c # post) emptyBuilder = Some b"
    by blast
  with b1(1) have "processBullets post b1 = Some b"
    by (simp add: processBullets_append processBullets_empty_texts [OF assms(1)])
  from rooted_processBullets [OF b1(2) this] have "rooted (bp_text c) b" .
  from rooted_tree [OF this] b show ?thesis by blast
qed

theorem orphan_message_gets_placeholder_summary_witness:
  "bp_text \<lparr>bp_text = [], bp_level = 0\<rparr> = []
   \<and> bp_text \<lparr>bp_text = ascii ''m'', bp_level = 1\<rparr> \<noteq> []
   \<and> bp_level \<lparr>bp_text = ascii ''m'', bp_level = 1\<rparr> = 1
   \<and> (\<exists>b bs ms rest.
        processBullets ([\<lparr>bp_text = [], bp_level = 0\<rparr>] @ \<lparr>bp_text = ascii ''m'', bp_level = 1\<rparr>
            # [\<lparr>bp_text = ascii ''b'', bp_level = 2\<rparr>]) emptyBuilder = Some b
        \<and> readSummaries b = Summary unclassified (Message (ascii ''m'') bs # ms) # rest)"
  using orphan_message_gets_placeholder_summary
    [of "[\<lparr>bp_text = [], bp_level = 0\<rparr>]" "\<lparr>bp_text = ascii ''m'', bp_level = 1\<rparr>"
        "[\<lparr>bp_text = ascii ''b'', bp_level = 2\<rparr>]"]
  by (simp add: ascii_def)

text \<open>The outline Summary, Message, Body of the end-to-end scenario.\<close>

lemma e2e_builder:
  "map_option readSummaries (processBullets [\<lparr>bp_text = ascii ''S'', bp_level = 0\<rparr>, \<lparr>bp_text = ascii ''M'', bp_level = 1\<rparr>, \<lparr>bp_text = ascii ''B'', bp_level = 2\<rparr>] emptyBuilder)
    = Some [Summary (ascii ''S'') [Message (ascii ''M'') [Body (ascii ''B'')]]]"
  by (simp add: processBullet_def newSummary_def newMessage_def pushBody_def ensureSummary_def emptyBuilder_def
     readSummaries_def readSummary_def readMessage_def readBody_def ascii_def Let_def)

subsection \<open>Text locator\<close>

lemma findIndex_None_iff: "findIndex P xs = None \<longleftrightarrow> (\<forall>x\<in>set xs. \<not> P x)"
  by (induction xs) auto

lemma findIndex_Some:
  "findIndex P xs = Some i \<Longrightarrow> i < length xs \<and> P (xs ! i) \<and> (\<forall>j<i. \<not> P (xs ! j))"
proof (induction xs arbitrary: i)
  case Nil
  then show ?case by simp
next
  case (Cons x xs)
  show ?case
  proof (cases "P x")
    case True
    with Cons.prems show ?thesis by simp
  next
    case False
    with Cons.prems obtain k where k: "findIndex P xs = Some k" "i = Suc k" by auto
    from Cons.IH [OF k(1)] False k(2) show ?thesis by (auto simp: nth_Cons split: nat.splits)
  qed
qed

lemma trim_blank:
  assumes "\<forall>c\<in>set t. isWhiteSpace c"
  shows "trim t = []"
proof -
  from assms have d: "dropWhile isWhiteSpace t = []" by simp
  show ?thesis unfolding trim_def d by simp
qed



text \<open>The definitions that evaluate the text functions on concrete strings.\<close>

lemmas ev = ascii_def trim_def isWhiteSpace_def startsWith_def substring0_def
  paragraphIncluding_def effectiveSearchText_def findTextInDocument_def longestWord_def
  extractKeywords_def commonWords_def searchBody_def legacy_shortenedSearch_def
  legacy_findTextInDocument_def para_def Let_def

text \<open>
  Claim C10. The current \<open>findTextInDocument\<close> returns \<open>null\<close> for an empty or all-white-space
  search text, whatever the paragraphs are, and the older one returns \<open>null\<close> for a search
  text shorter than 3 code units, whatever the paragraphs and the editor are. Neither
  function has a document to change: both only read.
\<close>

theorem blank_search_text_is_not_searched:
  "(searchText = [] \<or> (\<forall>c\<in>set searchText. isWhiteSpace c)
      \<longrightarrow> findTextInDocument searchText ps = None)
   \<and> (length legacyText < 3 \<longrightarrow> legacy_findTextInDocument ed legacyText allParagraphs = None)"
proof (intro conjI impI)
  assume "searchText = [] \<or> (\<forall>c\<in>set searchText. isWhiteSpace c)"
  then have "searchText = [] \<or> trim searchText = []" using trim_blank by blast
  then show "findTextInDocument searchText ps = None"
    unfolding findTextInDocument_def by (rule if_P)
next
  assume "length legacyText < 3"
  then show "legacy_findTextInDocument ed legacyText allParagraphs = None"
    unfolding legacy_findTextInDocument_def by (rule if_P)
qed

theorem blank_search_text_is_not_searched_witness:
  "isWhiteSpace 0x20 \<and> isWhiteSpace 0x3000
   \<and> findTextInDocument [0x20, 0x3000] [para [0x20, 0x3000]] = None
   \<and> length (ascii ''ab'') < 3
   \<and> legacy_findTextInDocument demoEditor (ascii ''ab'') (Some [para (ascii ''ab'')]) = None"
proof -
  have h1: "\<forall>c\<in>set [0x20, 0x3000]. isWhiteSpace c" by (simp add: isWhiteSpace_def)
  have h2: "length (ascii ''ab'') < 3" by (simp add: ascii_def)
  from blank_search_text_is_not_searched
    [of "[0x20, 0x3000]" "[para [0x20, 0x3000]]" "ascii ''ab''" demoEditor "Some [para (ascii ''ab'')]"]
    h1 h2
  have "findTextInDocument [0x20, 0x3000] [para [0x20, 0x3000]] = None"
    and "legacy_findTextInDocument demoEditor (ascii ''ab'') (Some [para (ascii ''ab'')]) = None"
    by blast+
  with h1 h2 show ?thesis by simp
qed

text \<open>
  Claim C2, at the failing input. The second paragraph is the search text verbatim, but
  the first loop of the current \<open>findTextInDocument\<close> tests containment, not equality, and
  returns the first paragraph, which only contains the text. The older function, on the
  same input, returns the second paragraph through its exact-match loop.
\<close>

theorem first_tier_is_containment_not_exact_match:
  "trim (p_text (para (ascii ''abc''))) = ascii ''abc''
   \<and> trim (p_text (para (ascii ''xx abc yy''))) \<noteq> ascii ''abc''
   \<and> findTextInDocument (ascii ''abc'') [para (ascii ''xx abc yy''), para (ascii ''abc'')]
       = Some (Substring, ParagraphRange 0)
   \<and> legacy_findTextInDocument demoEditor (ascii ''abc'') (Some [para (ascii ''xx abc yy''), para (ascii ''abc'')])
       = Some (ExactMatch, ParagraphRange (Suc 0))"
proof (intro conjI)
  show "trim (p_text (para (ascii ''abc''))) = ascii ''abc''"
    by (simp add: ev)
  show "trim (p_text (para (ascii ''xx abc yy''))) \<noteq> ascii ''abc''"
    by (simp add: ev)
  show "findTextInDocument (ascii ''abc'') [para (ascii ''xx abc yy''), para (ascii ''abc'')]
       = Some (Substring, ParagraphRange 0)"
    by (simp add: ev)
  show "legacy_findTextInDocument demoEditor (ascii ''abc'') (Some [para (ascii ''xx abc yy''), para (ascii ''abc'')])
       = Some (ExactMatch, ParagraphRange (Suc 0))"
    by (simp add: ev)
qed

text \<open>The older function does resolve a verbatim text of length 3 or more in its
  exact-match loop, at the first paragraph whose trimmed text is the trimmed search text.\<close>

lemma legacy_exact_match_first:
  assumes "\<not> length t < 3" and "p \<in> set ps" and "trim (p_text p) = trim t"
  shows "\<exists>i<length ps. legacy_findTextInDocument ed t (Some ps) = Some (ExactMatch, ParagraphRange i)
           \<and> trim (p_text (ps ! i)) = trim t
           \<and> (\<forall>j<i. trim (p_text (ps ! j)) \<noteq> trim t)"
proof -
  from assms(2,3) have "findIndex (\<lambda>q. trim (p_text q) = trim t) ps \<noteq> None"
    by (auto simp: findIndex_None_iff)
  then obtain i where i: "findIndex (\<lambda>q. trim (p_text q) = trim t) ps = Some i" by auto
  from findIndex_Some [OF i] i assms(1) show ?thesis
    by (auto simp: legacy_findTextInDocument_def)
qed





subsection \<open>Document title\<close>

lemma legacy_scan_bulletPoints:
  "bulletPoints (legacy_scanParagraphs ps st)
     = bulletPoints st @ map (\<lambda>p. toBulletPoint p (trim (p_text p))) (filter isBulletParagraph ps)"
  by (induction ps arbitrary: st) (simp_all add: Let_def isBulletParagraph_def)

lemma legacy_scan_titleParagraph:
  "titleParagraph (legacy_scanParagraphs ps st)
     = (case titleParagraph st of Some p \<Rightarrow> Some p | None \<Rightarrow> List.find isPlainParagraph ps)"
  by (induction ps arbitrary: st) (simp_all add: Let_def isPlainParagraph_def split: option.splits)

lemma legacy_scan_title:
  "data_title (legacy_scanParagraphs ps st)
     = (case titleParagraph st of
          Some p \<Rightarrow> data_title st
        | None \<Rightarrow> (case List.find isPlainParagraph ps of
                     None \<Rightarrow> data_title st
                   | Some p \<Rightarrow> Some (trim (p_text p))))"
  by (induction ps arbitrary: st) (simp_all add: Let_def isPlainParagraph_def split: option.splits)

lemma collectBulletPoints_filter:
  "collectBulletPoints t ps
     = map (\<lambda>p. toBulletPoint p (trim (p_text p)))
         (filter (\<lambda>p. isBulletParagraph p \<and> trim (p_text p) \<noteq> t) ps)"
  by (induction ps) (simp_all add: Let_def isBulletParagraph_def)

lemma runRequest_title:
  assumes "runRequest st = Some d"
  shows "\<exists>first rest. paragraphs st = first # rest \<and> req_title d = Some (p_text first)"
proof (cases "paragraphs st")
  case Nil
  with assms show ?thesis by (simp add: runRequest_def)
next
  case (Cons first rest)
  with assms have "req_title d = Some (p_text first)"
    by (auto simp: runRequest_def buildBulletPointsData_def Let_def
        split: sum.splits option.splits if_splits)
  with Cons show ?thesis by blast
qed

text \<open>
  Claim C4, as the code has it. In the older task pane the title is the trimmed text of
  the first non-empty paragraph that is not classified as a bullet (no title when there
  is none); later such paragraphs do not replace it, and the bullet candidates are
  exactly the non-empty paragraphs classified as bullets, so the title paragraph is not
  one of them. In the current task pane the title of the request that \<open>run\<close> sends is the
  text of the first paragraph of the document, whatever its classification, and the
  bullet candidates are the non-empty paragraphs classified as bullets whose trimmed text
  differs from that title.
\<close>

theorem document_title:
  "data_title (legacy_scanParagraphs ps emptyScan)
     = map_option (\<lambda>p. trim (p_text p)) (List.find isPlainParagraph ps)
   \<and> titleParagraph (legacy_scanParagraphs ps emptyScan) = List.find isPlainParagraph ps
   \<and> bulletPoints (legacy_scanParagraphs ps emptyScan)
       = map (\<lambda>p. toBulletPoint p (trim (p_text p))) (filter isBulletParagraph ps)
   \<and> (runRequest st = Some d \<longrightarrow>
        (\<exists>first rest. paragraphs st = first # rest \<and> req_title d = Some (p_text first)))
   \<and> collectBulletPoints t ps
       = map (\<lambda>p. toBulletPoint p (trim (p_text p)))
           (filter (\<lambda>p. isBulletParagraph p \<and> trim (p_text p) \<noteq> t) ps)"
proof (intro conjI impI)
  show "data_title (legacy_scanParagraphs ps emptyScan)
     = map_option (\<lambda>p. trim (p_text p)) (List.find isPlainParagraph ps)"
    unfolding legacy_scan_title by (simp add: emptyScan_def split: option.splits)
  show "titleParagraph (legacy_scanParagraphs ps emptyScan) = List.find isPlainParagraph ps"
    unfolding legacy_scan_titleParagraph by (simp add: emptyScan_def)
  show "bulletPoints (legacy_scanParagraphs ps emptyScan)
       = map (\<lambda>p. toBulletPoint p (trim (p_text p))) (filter isBulletParagraph ps)"
    unfolding legacy_scan_bulletPoints by (simp add: emptyScan_def)
  show "collectBulletPoints t ps
       = map (\<lambda>p. toBulletPoint p (trim (p_text p)))
           (filter (\<lambda>p. isBulletParagraph p \<and> trim (p_text p) \<noteq> t) ps)"
    by (rule collectBulletPoints_filter)
next
  assume "runRequest st = Some d"
  then show "\<exists>first rest. paragraphs st = first # rest \<and> req_title d = Some (p_text first)"
    by (rule runRequest_title)
qed


text \<open>The definitions that evaluate the normalizer and the builder on concrete paragraphs.\<close>

lemmas ev_outline = isBulletParagraph_def isPlainParagraph_def isBulletPoint_def
  matchesNumbering_def isDigit_def inferLevel_def stripGlyph_def stripNumbering_def
  cleanText_def toBulletPoint_def processBullet_def newSummary_def newMessage_def
  pushBody_def ensureSummary_def emptyBuilder_def readSummaries_def readSummary_def
  readMessage_def readBody_def buildBulletPointsData_def runRequest_def initialState_def
  emptyScan_def

lemma outline_collect:
  "collectBulletPoints (ascii ''- A'') [para (ascii ''- A''), para (ascii ''Title''), para (ascii ''- B'')]
     = [\<lparr>bp_text = ascii ''B'', bp_level = 0\<rparr>]"
  by (simp add: ev ev_outline)

lemma outline_build:
  "map_option readSummaries (processBullets [\<lparr>bp_text = ascii ''B'', bp_level = 0\<rparr>] emptyBuilder)
     = Some [Summary (ascii ''B'') []]"
  by (simp add: ev ev_outline)

lemma outline_request:
  "runRequest (initialState [para (ascii ''- A''), para (ascii ''Title''), para (ascii ''- B'')])
     = Some \<lparr>req_summaries = [Summary (ascii ''B'') []], req_title = Some (ascii ''- A'')\<rparr>"
proof -
  from outline_build obtain b
    where b: "processBullets [\<lparr>bp_text = ascii ''B'', bp_level = 0\<rparr>] emptyBuilder = Some b"
      and r: "readSummaries b = [Summary (ascii ''B'') []]"
    by blast
  have "buildBulletPointsData [para (ascii ''- A''), para (ascii ''Title''), para (ascii ''- B'')] (ascii ''- A'')
      = Inr (Some \<lparr>req_summaries = [Summary (ascii ''B'') []], req_title = Some (ascii ''- A'')\<rparr>)"
    unfolding buildBulletPointsData_def outline_collect Let_def b by (simp add: r)
  moreover have "p_text (para (ascii ''- A'')) = ascii ''- A''"
    by (simp add: para_def)
  ultimately show ?thesis
    by (simp add: runRequest_def initialState_def)
qed

lemma outline_classes:
  "isBulletParagraph (para (ascii ''- A''))" "isPlainParagraph (para (ascii ''Title''))"
  "isBulletParagraph (para (ascii ''- B''))"
  "\<not> isPlainParagraph (para (ascii ''- A''))" "\<not> isBulletParagraph (para (ascii ''Title''))"
  "\<not> isPlainParagraph (para (ascii ''- B''))"
  by (simp_all add: ev ev_outline)

theorem document_title_witness:
  "runRequest (initialState [para (ascii ''- A''), para (ascii ''Title''), para (ascii ''- B'')])
     = Some \<lparr>req_summaries = [Summary (ascii ''B'') []], req_title = Some (ascii ''- A'')\<rparr>
   \<and> paragraphs (initialState [para (ascii ''- A''), para (ascii ''Title''), para (ascii ''- B'')])
       = para (ascii ''- A'') # [para (ascii ''Title''), para (ascii ''- B'')]
   \<and> req_title \<lparr>req_summaries = [Summary (ascii ''B'') []], req_title = Some (ascii ''- A'')\<rparr>
       = Some (p_text (para (ascii ''- A'')))
   \<and> data_title (legacy_scanParagraphs [para (ascii ''- A''), para (ascii ''Title''), para (ascii ''- B'')] emptyScan)
       = Some (ascii ''Title'')
   \<and> bulletPoints (legacy_scanParagraphs [para (ascii ''- A''), para (ascii ''Title''), para (ascii ''- B'')] emptyScan)
       = [\<lparr>bp_text = ascii ''A'', bp_level = 0\<rparr>, \<lparr>bp_text = ascii ''B'', bp_level = 0\<rparr>]"
proof -
  let ?ps = "[para (ascii ''- A''), para (ascii ''Title''), para (ascii ''- B'')]"
  let ?d = "\<lparr>req_summaries = [Summary (ascii ''B'') []], req_title = Some (ascii ''- A'')\<rparr>"
  note t = document_title [of ?ps "initialState ?ps" ?d "ascii ''- A''"]
  from t have title: "data_title (legacy_scanParagraphs ?ps emptyScan)
      = map_option (\<lambda>p. trim (p_text p)) (List.find isPlainParagraph ?ps)"
    and bullets: "bulletPoints (legacy_scanParagraphs ?ps emptyScan)
       = map (\<lambda>p. toBulletPoint p (trim (p_text p))) (filter isBulletParagraph ?ps)"
    by blast+
  from t outline_request
  have first: "\<exists>first rest. paragraphs (initialState ?ps) = first # rest \<and> req_title ?d = Some (p_text first)"
    by blast
  have f: "List.find isPlainParagraph ?ps = Some (para (ascii ''Title''))"
    by (simp add: outline_classes)
  have g: "filter isBulletParagraph ?ps = [para (ascii ''- A''), para (ascii ''- B'')]"
    by (simp add: outline_classes)
  have tt: "trim (p_text (para (ascii ''Title''))) = ascii ''Title''"
    by (simp add: ev)
  have tb: "toBulletPoint (para (ascii ''- A'')) (trim (p_text (para (ascii ''- A''))))
              = \<lparr>bp_text = ascii ''A'', bp_level = 0\<rparr>"
    "toBulletPoint (para (ascii ''- B'')) (trim (p_text (para (ascii ''- B''))))
              = \<lparr>bp_text = ascii ''B'', bp_level = 0\<rparr>"
    by (simp_all add: ev ev_outline)
  from first have p: "paragraphs (initialState ?ps) = para (ascii ''- A'') # [para (ascii ''Title''), para (ascii ''- B'')]"
    and q: "req_title ?d = Some (p_text (para (ascii ''- A'')))"
    by (auto simp: initialState_def)
  from title f tt have r: "data_title (legacy_scanParagraphs ?ps emptyScan) = Some (ascii ''Title'')"
    by simp
  from bullets g tb have u: "bulletPoints (legacy_scanParagraphs ?ps emptyScan)
       = [\<lparr>bp_text = ascii ''A'', bp_level = 0\<rparr>, \<lparr>bp_text = ascii ''B'', bp_level = 0\<rparr>]"
    by simp
  from outline_request p q r u show ?thesis by blast
qed

text \<open>
  Claim C4, as stated, fails on the current task pane at this input. The first paragraph
  is classified as a bullet and the second is the first that is not, but the title of the
  request is the text of the first paragraph, and that bullet is left out of the
  hierarchy: only the third paragraph becomes a Summary.
\<close>

theorem document_title_counterexample:
  "isBulletParagraph (para (ascii ''- A''))
   \<and> isPlainParagraph (para (ascii ''Title''))
   \<and> runRequest (initialState [para (ascii ''- A''), para (ascii ''Title''), para (ascii ''- B'')])
       = Some \<lparr>req_summaries = [Summary (ascii ''B'') []], req_title = Some (ascii ''- A'')\<rparr>"
  using outline_classes(1,2) outline_request by blast

subsection \<open>Annotation manager\<close>

lemma sameSession_refl: "sameSession st st"
  by (simp add: sameSession_def)

lemma sameSession_trans: "sameSession a b \<Longrightarrow> sameSession b c \<Longrightarrow> sameSession a c"
  by (simp add: sameSession_def)

lemma deleteCommentsOf_session: "sameSession st (deleteCommentsOf ed rs st)"
proof (induction rs arbitrary: st)
  case Nil
  show ?case by (simp add: sameSession_refl)
next
  case (Cons r rs)
  have "sameSession st (st\<lparr>comments := filter (\<lambda>c. \<not> rangeHasComment ed r (fst c)) (comments st)\<rparr>)"
    by (simp add: sameSession_def)
  from sameSession_trans [OF this Cons.IH] show ?case by simp
qed

lemma deleteCommentsOf_comments:
  "comments (deleteCommentsOf ed rs st)
     = filter (\<lambda>c. \<forall>r\<in>set rs. \<not> rangeHasComment ed r (fst c)) (comments st)"
proof (induction rs arbitrary: st)
  case Nil
  show ?case by simp
next
  case (Cons r rs)
  show ?case by (simp add: Cons.IH conj_commute)
qed

lemma removeAllComments_session: "sameSession st (removeAllComments ed st)"
  by (simp add: removeAllComments_def deleteCommentsOf_session sameSession_refl split: option.splits)

lemma removeAllComments_complete:
  assumes "wildcardSearch ed = Some rs" and "\<forall>a. \<exists>r\<in>set rs. rangeHasComment ed r a"
  shows "comments (removeAllComments ed st) = []"
proof -
  from assms(2) have "filter (\<lambda>c. \<forall>r\<in>set rs. \<not> rangeHasComment ed r (fst c)) (comments st) = []"
    by (auto simp: filter_empty_conv)
  with assms(1) show ?thesis
    by (simp add: removeAllComments_def deleteCommentsOf_comments)
qed

lemma removeAllComments_rejected:
  "wildcardSearch ed = None \<Longrightarrow> removeAllComments ed st = st"
  by (simp add: removeAllComments_def)

lemma attachFinding_comments:
  "comments (fst (attachFinding ed sc result r st))
     = comments st @
       (if insertCommentOk ed r (commentText ed sc (filter has_issues (criteria_results result)))
        then [(r, commentText ed sc (filter has_issues (criteria_results result)))] else [])"
  by (simp add: attachFinding_def addCommentSafely_def recordRange_def Let_def split: list.splits)

lemma attachFinding_threw:
  "snd (attachFinding ed sc result r st)
     \<longleftrightarrow> insertCommentOk ed r (commentText ed sc (filter has_issues (criteria_results result)))
         \<and> filter has_issues (criteria_results result) = []"
  by (simp add: attachFinding_def addCommentSafely_def recordRange_def Let_def split: list.splits)

lemma attachFinding_session: "sameSession st (fst (attachFinding ed sc result r st))"
  by (simp add: attachFinding_def addCommentSafely_def recordRange_def Let_def sameSession_def
      split: list.splits)

lemma annotateFinding_session: "sameSession st (fst (annotateFinding ed sc result st))"
  by (simp add: annotateFinding_def attachFinding_session sameSession_refl
      split: list.splits option.splits)

lemma annotateFinding_step:
  assumes "paragraphs st' = paragraphs st"
  shows "\<exists>cs. comments (fst (annotateFinding ed sc result st)) = comments st @ cs
            \<and> comments (fst (annotateFinding ed sc result st')) = comments st' @ cs
            \<and> snd (annotateFinding ed sc result st) = snd (annotateFinding ed sc result st')"
proof (cases "sc = ALL_SUMMARIES \<and> target_text result = pageTitle ed")
  case True
  show ?thesis
  proof (cases "paragraphs st")
    case Nil
    with True assms show ?thesis by (simp add: annotateFinding_def)
  next
    case (Cons p ps)
    with True assms have
      "annotateFinding ed sc result st = attachFinding ed sc result (ParagraphRange 0) st"
      "annotateFinding ed sc result st' = attachFinding ed sc result (ParagraphRange 0) st'"
      by (simp_all add: annotateFinding_def)
    then show ?thesis by (simp add: attachFinding_comments attachFinding_threw)
  qed
next
  case False
  have e: "\<And>s. annotateFinding ed sc result s
      = (case findTextInDocument (target_text result) (paragraphs s) of
           Some found \<Rightarrow> attachFinding ed sc result (snd found) s
         | None \<Rightarrow> (s, False))"
    unfolding annotateFinding_def using False by (rule if_not_P)
  show ?thesis
  proof (cases "findTextInDocument (target_text result) (paragraphs st)")
    case None
    with assms show ?thesis by (simp add: e)
  next
    case (Some found)
    with assms have
      "annotateFinding ed sc result st = attachFinding ed sc result (snd found) st"
      "annotateFinding ed sc result st' = attachFinding ed sc result (snd found) st'"
      by (simp_all add: e)
    then show ?thesis by (simp add: attachFinding_comments attachFinding_threw)
  qed
qed

lemma annotateFindings_session: "sameSession st (fst (annotateFindings ed f rs st))"
proof (induction rs arbitrary: st)
  case Nil
  show ?case by (simp add: sameSession_refl)
next
  case (Cons r rs)
  note step = annotateFinding_session [of st ed "f r" r]
  show ?case
  proof (cases "snd (annotateFinding ed (f r) r st)")
    case True
    with step show ?thesis by (simp add: Let_def)
  next
    case False
    with sameSession_trans [OF step Cons.IH] show ?thesis by (simp add: Let_def)
  qed
qed

lemma annotateFindings_comments:
  assumes "paragraphs st' = paragraphs st"
  shows "\<exists>cs. comments (fst (annotateFindings ed f rs st)) = comments st @ cs
            \<and> comments (fst (annotateFindings ed f rs st')) = comments st' @ cs
            \<and> snd (annotateFindings ed f rs st) = snd (annotateFindings ed f rs st')"
  using assms
proof (induction rs arbitrary: st st')
  case Nil
  then show ?case by simp
next
  case (Cons r rs)
  from annotateFinding_step [OF Cons.prems, of ed "f r" r] obtain c1
    where c1: "comments (fst (annotateFinding ed (f r) r st)) = comments st @ c1"
      "comments (fst (annotateFinding ed (f r) r st')) = comments st' @ c1"
      "snd (annotateFinding ed (f r) r st) = snd (annotateFinding ed (f r) r st')"
    by blast
  show ?case
  proof (cases "snd (annotateFinding ed (f r) r st)")
    case True
    with c1 show ?thesis by (simp add: Let_def)
  next
    case False
    have "paragraphs (fst (annotateFinding ed (f r) r st')) = paragraphs (fst (annotateFinding ed (f r) r st))"
      using annotateFinding_session [of st ed "f r" r] annotateFinding_session [of st' ed "f r" r]
        Cons.prems by (simp add: sameSession_def)
    from Cons.IH [OF this] obtain cs
      where cs: "comments (fst (annotateFindings ed f rs (fst (annotateFinding ed (f r) r st))))
                   = comments (fst (annotateFinding ed (f r) r st)) @ cs"
        "comments (fst (annotateFindings ed f rs (fst (annotateFinding ed (f r) r st'))))
                   = comments (fst (annotateFinding ed (f r) r st')) @ cs"
        "snd (annotateFindings ed f rs (fst (annotateFinding ed (f r) r st)))
           = snd (annotateFindings ed f rs (fst (annotateFinding ed (f r) r st')))"
      by blast
    from False c1 cs show ?thesis by (simp add: Let_def)
  qed
qed


lemma annotateFindings_applied:
  "comments (fst (annotateFindings ed f rs st)) = comments st @ appliedComments ed f rs (paragraphs st)"
proof -
  have "paragraphs (initialState (paragraphs st)) = paragraphs st"
    by (simp add: initialState_def)
  from annotateFindings_comments [OF this, of ed f rs] obtain cs
    where "comments (fst (annotateFindings ed f rs st)) = comments st @ cs"
      and "comments (fst (annotateFindings ed f rs (initialState (paragraphs st))))
             = comments (initialState (paragraphs st)) @ cs"
    by blast
  then show ?thesis by (simp add: appliedComments_def initialState_def)
qed

lemma showAllComments_session: "sameSession st (showAllComments ed st)"
proof (cases "evaluationResults st = []")
  case True
  then show ?thesis by (simp add: showAllComments_def sameSession_refl)
next
  case False
  let ?st1 = "removeAllComments ed st"
  have r: "sameSession st ?st1" by (rule removeAllComments_session)
  have c: "sameSession ?st1 (?st1\<lparr>commentRanges := Map.empty, commentRangesProto := None\<rparr>)"
    by (simp add: sameSession_def)
  note a = annotateFindings_session
    [of "?st1\<lparr>commentRanges := Map.empty, commentRangesProto := None\<rparr>" ed scope
        "filter hasIssues (evaluationResults ?st1)"]
  from sameSession_trans [OF r sameSession_trans [OF c a]] r False show ?thesis
    by (simp add: showAllComments_def Let_def)
qed

lemma showAllComments_comments:
  "comments (showAllComments ed st)
     = (if evaluationResults st = [] then comments st
        else if filter hasIssues (evaluationResults st) = [] then comments (removeAllComments ed st)
        else comments (removeAllComments ed st)
               @ appliedComments ed scope (filter hasIssues (evaluationResults st)) (paragraphs st))"
proof -
  have r: "evaluationResults (removeAllComments ed st) = evaluationResults st"
    "paragraphs (removeAllComments ed st) = paragraphs st"
    using removeAllComments_session [of st ed] by (simp_all add: sameSession_def)
  show ?thesis
    by (simp add: showAllComments_def Let_def r annotateFindings_applied)
qed

lemma filterCommentsByScope_session: "sameSession st (filterCommentsByScope ed sc st)"
proof (cases "evaluationResults st = []")
  case True
  then show ?thesis by (simp add: filterCommentsByScope_def sameSession_refl)
next
  case False
  let ?st1 = "removeAllComments ed st"
  let ?rs = "filter (\<lambda>result. isMatchingScope (scope result) sc \<and> hasIssues result) (evaluationResults ?st1)"
  let ?p = "annotateFindings ed (\<lambda>_. sc) ?rs (?st1\<lparr>commentRanges := Map.empty, commentRangesProto := None\<rparr>)"
  have r: "sameSession st ?st1" by (rule removeAllComments_session)
  have c: "sameSession ?st1 (?st1\<lparr>commentRanges := Map.empty, commentRangesProto := None\<rparr>)"
    by (simp add: sameSession_def)
  have a: "sameSession (?st1\<lparr>commentRanges := Map.empty, commentRangesProto := None\<rparr>) (fst ?p)"
    by (rule annotateFindings_session)
  have b: "sameSession (fst ?p) ((fst ?p)\<lparr>activeScope := Some sc\<rparr>)"
    by (simp add: sameSession_def)
  note p = sameSession_trans [OF r sameSession_trans [OF c a]]
  note q = sameSession_trans [OF p b]
  from p q r False show ?thesis
    by (simp add: filterCommentsByScope_def Let_def)
qed

lemma filterCommentsByScope_comments:
  "comments (filterCommentsByScope ed sc st)
     = (if evaluationResults st = [] then comments st
        else if filter (\<lambda>result. isMatchingScope (scope result) sc \<and> hasIssues result)
                  (evaluationResults st) = []
          then comments (removeAllComments ed st)
        else comments (removeAllComments ed st)
               @ appliedComments ed (\<lambda>_. sc)
                   (filter (\<lambda>result. isMatchingScope (scope result) sc \<and> hasIssues result)
                      (evaluationResults st)) (paragraphs st))"
proof -
  have r: "evaluationResults (removeAllComments ed st) = evaluationResults st"
    "paragraphs (removeAllComments ed st) = paragraphs st"
    using removeAllComments_session [of st ed] by (simp_all add: sameSession_def)
  show ?thesis
    by (simp add: filterCommentsByScope_def Let_def r annotateFindings_applied)
qed

lemma showHighestPriorityComments_session: "sameSession st (showHighestPriorityComments ed st)"
  by (simp add: showHighestPriorityComments_def sameSession_refl showAllComments_session
      filterCommentsByScope_session split: option.splits)

lemma apply_pass_idempotent:
  fixes st st2 st3 :: state
  assumes same: "sameSession st st2"
    and c1: "comments st2 = (if evaluationResults st = [] then comments st else X)"
    and c2: "comments st3 = (if evaluationResults st2 = [] then comments st2 else X')"
    and x: "paragraphs st2 = paragraphs st \<Longrightarrow> evaluationResults st2 = evaluationResults st \<Longrightarrow> X' = X"
  shows "comments st3 = comments st2"
proof -
  from same have p: "paragraphs st2 = paragraphs st" and e: "evaluationResults st2 = evaluationResults st"
    by (simp_all add: sameSession_def)
  from x [OF p e] c1 c2 e show ?thesis by simp
qed

text \<open>
  Claim C9, as the code has it. When the wildcard search of \<open>removeAllComments\<close> succeeds and
  its ranges carry every comment, a pass of \<open>showAllComments\<close> or of \<open>filterCommentsByScope\<close>
  with stored findings leaves exactly the comments it attaches itself, whatever comments
  were there before; so a second pass in a row leaves the same comments, and the same
  number of them, as the first.
\<close>

theorem apply_twice_same_comments:
  assumes "wildcardSearch ed = Some rs" and "\<forall>a. \<exists>r\<in>set rs. rangeHasComment ed r a"
  shows "comments (showAllComments ed (showAllComments ed st)) = comments (showAllComments ed st)
       \<and> length (comments (showAllComments ed (showAllComments ed st)))
           = length (comments (showAllComments ed st))
       \<and> comments (filterCommentsByScope ed sc (filterCommentsByScope ed sc st))
           = comments (filterCommentsByScope ed sc st)
       \<and> length (comments (filterCommentsByScope ed sc (filterCommentsByScope ed sc st)))
           = length (comments (filterCommentsByScope ed sc st))
       \<and> (evaluationResults st \<noteq> [] \<longrightarrow>
            comments (showAllComments ed st)
              = appliedComments ed scope (filter hasIssues (evaluationResults st)) (paragraphs st))
       \<and> (evaluationResults st \<noteq> [] \<longrightarrow>
            comments (filterCommentsByScope ed sc st)
              = appliedComments ed (\<lambda>_. sc)
                  (filter (\<lambda>result. isMatchingScope (scope result) sc \<and> hasIssues result)
                     (evaluationResults st)) (paragraphs st))"
proof -
  note clear = removeAllComments_complete [OF assms]
  have a: "\<And>s :: state. comments (showAllComments ed s)
      = (if evaluationResults s = [] then comments s
         else appliedComments ed scope (filter hasIssues (evaluationResults s)) (paragraphs s))"
  proof -
    fix s :: state
    have "filter hasIssues (evaluationResults s) = [] \<Longrightarrow>
        appliedComments ed scope (filter hasIssues (evaluationResults s)) (paragraphs s) = []"
      by (simp add: appliedComments_def initialState_def)
    then show "comments (showAllComments ed s)
      = (if evaluationResults s = [] then comments s
         else appliedComments ed scope (filter hasIssues (evaluationResults s)) (paragraphs s))"
      unfolding showAllComments_comments clear by simp
  qed
  have f: "\<And>s :: state. comments (filterCommentsByScope ed sc s)
      = (if evaluationResults s = [] then comments s
         else appliedComments ed (\<lambda>_. sc)
                (filter (\<lambda>result. isMatchingScope (scope result) sc \<and> hasIssues result)
                   (evaluationResults s)) (paragraphs s))"
  proof -
    fix s :: state
    let ?rs = "filter (\<lambda>result. isMatchingScope (scope result) sc \<and> hasIssues result) (evaluationResults s)"
    have "?rs = [] \<Longrightarrow> appliedComments ed (\<lambda>_. sc) ?rs (paragraphs s) = []"
      by (simp add: appliedComments_def initialState_def)
    then show "comments (filterCommentsByScope ed sc s)
      = (if evaluationResults s = [] then comments s
         else appliedComments ed (\<lambda>_. sc) ?rs (paragraphs s))"
      unfolding filterCommentsByScope_comments clear by simp
  qed
  have i1: "comments (showAllComments ed (showAllComments ed st)) = comments (showAllComments ed st)"
    by (rule apply_pass_idempotent [OF showAllComments_session [of st ed] a a]) simp
  have i2: "comments (filterCommentsByScope ed sc (filterCommentsByScope ed sc st))
           = comments (filterCommentsByScope ed sc st)"
    by (rule apply_pass_idempotent [OF filterCommentsByScope_session [of st ed sc] f f]) simp
  from i1 i2 a [of st] f [of st] show ?thesis by simp
qed

lemma demoFinding_hasIssues: "hasIssues demoFinding" "filter hasIssues [demoFinding] = [demoFinding]"
  by (simp_all add: hasIssues_def demoFinding_def)

lemma demoFinding_applied:
  assumes "\<And>r t. insertCommentOk ed r t"
  shows "appliedComments ed scope [demoFinding] [para (ascii ''abc'')]
     = [(ParagraphRange 0, commentText ed DOCUMENT_WIDE (criteria_results demoFinding))]"
proof -
  let ?st = "initialState [para (ascii ''abc'')]"
  have ne: "scope demoFinding \<noteq> ALL_SUMMARIES"
    by (simp add: demoFinding_def DOCUMENT_WIDE_def ALL_SUMMARIES_def ascii_def)
  have f: "findTextInDocument (target_text demoFinding) (paragraphs ?st) = Some (Substring, ParagraphRange 0)"
    by (simp add: demoFinding_def initialState_def ev)
  have step: "annotateFinding ed (scope demoFinding) demoFinding ?st
      = attachFinding ed (scope demoFinding) demoFinding (ParagraphRange 0) ?st"
    unfolding annotateFinding_def using ne f by simp
  have "comments (fst (annotateFindings ed scope [demoFinding] ?st))
      = comments (fst (attachFinding ed (scope demoFinding) demoFinding (ParagraphRange 0) ?st))"
    by (simp add: Let_def step)
  also have "\<dots> = [(ParagraphRange 0, commentText ed DOCUMENT_WIDE (criteria_results demoFinding))]"
    unfolding attachFinding_comments using assms
    by (simp add: initialState_def demoFinding_def)
  finally show ?thesis by (simp add: appliedComments_def)
qed

theorem apply_twice_same_comments_witness:
  "wildcardSearch demoEditor = Some [TextRange 0 1]
   \<and> (\<forall>a. rangeHasComment demoEditor (TextRange 0 1) a)
   \<and> evaluationResults staleState \<noteq> []
   \<and> length (comments staleState) = 1
   \<and> comments (showAllComments demoEditor staleState)
       = [(ParagraphRange 0, commentText demoEditor DOCUMENT_WIDE (criteria_results demoFinding))]
   \<and> length (comments (showAllComments demoEditor (showAllComments demoEditor staleState))) = 1"
proof -
  have h1: "wildcardSearch demoEditor = Some [TextRange 0 1]"
    by (simp add: demoEditor_def)
  have h2: "\<forall>a. \<exists>r\<in>set [TextRange 0 1]. rangeHasComment demoEditor r a"
    by (simp add: demoEditor_def)
  have ok: "\<And>r t. insertCommentOk demoEditor r t"
    by (simp add: demoEditor_def)
  have e: "evaluationResults staleState = [demoFinding]" "paragraphs staleState = [para (ascii ''abc'')]"
    "length (comments staleState) = 1"
    by (simp_all add: staleState_def findingState_def initialState_def)
  note t = apply_twice_same_comments [OF h1 h2, of staleState DOCUMENT_WIDE]
  from t e have once: "comments (showAllComments demoEditor staleState)
      = appliedComments demoEditor scope (filter hasIssues [demoFinding]) [para (ascii ''abc'')]"
    by simp
  then have once': "comments (showAllComments demoEditor staleState)
       = [(ParagraphRange 0, commentText demoEditor DOCUMENT_WIDE (criteria_results demoFinding))]"
    by (simp only: demoFinding_hasIssues(2) demoFinding_applied [OF ok])
  from t have "length (comments (showAllComments demoEditor (showAllComments demoEditor staleState)))
           = length (comments (showAllComments demoEditor staleState))"
    by blast
  with once' have twice: "length (comments (showAllComments demoEditor (showAllComments demoEditor staleState))) = 1"
    by simp
  from h2 have h2': "\<forall>a. rangeHasComment demoEditor (TextRange 0 1) a" by simp
  from h1 h2' e once' twice show ?thesis by simp
qed

text \<open>
  Claim C9, as stated, fails when the editor rejects the wildcard search: \<open>removeAllComments\<close>
  catches the exception, logs it and returns, the pass goes on, and a second pass in a row
  attaches the same comment again. One pass leaves one comment, two passes leave two.
\<close>

theorem apply_twice_same_comments_counterexample:
  "wildcardSearch rejectingEditor = None
   \<and> length (comments findingState) = 0
   \<and> length (comments (showAllComments rejectingEditor findingState)) = 1
   \<and> length (comments (showAllComments rejectingEditor (showAllComments rejectingEditor findingState))) = 2"
proof -
  have h: "wildcardSearch rejectingEditor = None"
    by (simp add: rejectingEditor_def)
  have ok: "\<And>r t. insertCommentOk rejectingEditor r t"
    by (simp add: rejectingEditor_def demoEditor_def)
  have e: "evaluationResults findingState = [demoFinding]" "paragraphs findingState = [para (ascii ''abc'')]"
    "comments findingState = []"
    by (simp_all add: findingState_def initialState_def)
  let ?st1 = "showAllComments rejectingEditor findingState"
  have k: "length (appliedComments rejectingEditor scope (filter hasIssues [demoFinding]) [para (ascii ''abc'')]) = 1"
    by (simp only: demoFinding_hasIssues(2) demoFinding_applied [OF ok]) simp
  have once: "comments ?st1
      = appliedComments rejectingEditor scope (filter hasIssues [demoFinding]) [para (ascii ''abc'')]"
    unfolding showAllComments_comments removeAllComments_rejected [OF h]
    by (simp add: e demoFinding_hasIssues)
  have s: "evaluationResults ?st1 = [demoFinding]" "paragraphs ?st1 = [para (ascii ''abc'')]"
    using showAllComments_session [of findingState rejectingEditor] e
    by (simp_all add: sameSession_def)
  have twice: "comments (showAllComments rejectingEditor ?st1)
      = comments ?st1 @ appliedComments rejectingEditor scope (filter hasIssues [demoFinding]) [para (ascii ''abc'')]"
    unfolding showAllComments_comments [of rejectingEditor ?st1] removeAllComments_rejected [OF h]
    by (simp add: s demoFinding_hasIssues)
  from h e once twice k show ?thesis by simp
qed

subsection \<open>Scope priority resolver\<close>

lemma scopes_distinct: "distinct scopePriority"
  by (simp add: scopePriority_def DOCUMENT_WIDE_def ALL_SUMMARIES_def SUMMARY_PAIRS_def
      SUMMARY_WITH_MESSAGES_def MESSAGES_UNDER_SUMMARY_def MESSAGE_WITH_BODIES_def ascii_def)

lemma map_of_table: "map_of (map (\<lambda>k. (k, g k)) ks) k = (if k \<in> set ks then Some (g k) else None)"
  by (induction ks) auto

lemma hasIssues_iff: "hasIssues r \<longleftrightarrow> (\<exists>cr\<in>set (criteria_results r). has_issues cr)"
  by (simp add: hasIssues_def list_ex_iff)

lemma scopeHasIssues_entry:
  assumes "sc \<in> set scopePriority"
  shows "map_of (scopeHasIssues rs) sc = Some True \<longleftrightarrow> (\<exists>r\<in>set rs. scope r = sc \<and> hasIssues r)"
  using assms
  by (auto simp: scopeHasIssues_def map_of_table list_ex_iff isMatchingScope_def)

lemma highestPriorityScope_find:
  "highestPriorityScope rs = List.find (\<lambda>sc. \<exists>r\<in>set rs. scope r = sc \<and> hasIssues r) scopePriority"
  unfolding highestPriorityScope_def
  by (rule find_cong) (simp_all add: scopeHasIssues_entry)

lemma find_first: "P x \<Longrightarrow> List.find P (x # xs) = Some x"
  by simp

lemma find_last:
  assumes "\<forall>x\<in>set xs. \<not> P x" and "P y"
  shows "List.find P (xs @ [y]) = Some y"
  using assms by (induction xs) auto

text \<open>
  Claim C3. The resolver selects the first scope, in the fixed order DOCUMENT_WIDE,
  ALL_SUMMARIES, SUMMARY_PAIRS, SUMMARY_WITH_MESSAGES, MESSAGES_UNDER_SUMMARY,
  MESSAGE_WITH_BODIES, for which some stored result of that scope has a failing
  criterion, and shows the comments of that scope only; when no scope has one it shows
  all findings. So issues only in MESSAGE_WITH_BODIES select that scope, issues in
  DOCUMENT_WIDE select DOCUMENT_WIDE whatever other scopes have issues (SUMMARY_PAIRS
  among them), and without any issue the pass is the one of \<open>showAllComments\<close>.
\<close>

theorem highest_priority_scope:
  "highestPriorityScope rs
     = List.find (\<lambda>sc. \<exists>r\<in>set rs. scope r = sc \<and> (\<exists>cr\<in>set (criteria_results r). has_issues cr))
         [DOCUMENT_WIDE, ALL_SUMMARIES, SUMMARY_PAIRS, SUMMARY_WITH_MESSAGES,
          MESSAGES_UNDER_SUMMARY, MESSAGE_WITH_BODIES]
   \<and> showHighestPriorityComments ed st
       = (case highestPriorityScope (evaluationResults st) of
            Some sc \<Rightarrow> filterCommentsByScope ed sc st
          | None \<Rightarrow> showAllComments ed st)
   \<and> ((\<exists>r\<in>set rs. scope r = MESSAGE_WITH_BODIES \<and> hasIssues r)
        \<and> (\<forall>r\<in>set rs. hasIssues r \<longrightarrow> scope r = MESSAGE_WITH_BODIES)
        \<longrightarrow> highestPriorityScope rs = Some MESSAGE_WITH_BODIES)
   \<and> ((\<exists>r\<in>set rs. scope r = DOCUMENT_WIDE \<and> hasIssues r)
        \<longrightarrow> highestPriorityScope rs = Some DOCUMENT_WIDE)
   \<and> ((\<forall>r\<in>set (evaluationResults st). \<not> hasIssues r)
        \<longrightarrow> highestPriorityScope (evaluationResults st) = None
            \<and> showHighestPriorityComments ed st = showAllComments ed st)"
proof (intro conjI impI)
  show "highestPriorityScope rs
     = List.find (\<lambda>sc. \<exists>r\<in>set rs. scope r = sc \<and> (\<exists>cr\<in>set (criteria_results r). has_issues cr))
         [DOCUMENT_WIDE, ALL_SUMMARIES, SUMMARY_PAIRS, SUMMARY_WITH_MESSAGES,
          MESSAGES_UNDER_SUMMARY, MESSAGE_WITH_BODIES]"
    unfolding highestPriorityScope_find hasIssues_iff scopePriority_def ..
  show eff: "showHighestPriorityComments ed st
       = (case highestPriorityScope (evaluationResults st) of
            Some sc \<Rightarrow> filterCommentsByScope ed sc st
          | None \<Rightarrow> showAllComments ed st)"
  proof (cases "evaluationResults st = []")
    case True
    then have "highestPriorityScope (evaluationResults st) = None"
      by (simp add: highestPriorityScope_find scopePriority_def)
    with True show ?thesis
      by (simp add: showHighestPriorityComments_def showAllComments_def)
  next
    case False
    then show ?thesis by (simp add: showHighestPriorityComments_def)
  qed
  {
    assume h: "\<forall>r\<in>set (evaluationResults st). \<not> hasIssues r"
    then show none: "highestPriorityScope (evaluationResults st) = None"
      by (simp add: highestPriorityScope_find find_None_iff)
    with eff show "showHighestPriorityComments ed st = showAllComments ed st"
      by simp
  }
next
  assume "\<exists>r\<in>set rs. scope r = DOCUMENT_WIDE \<and> hasIssues r"
  then show "highestPriorityScope rs = Some DOCUMENT_WIDE"
    unfolding highestPriorityScope_find scopePriority_def by (rule find_first)
next
  assume h: "(\<exists>r\<in>set rs. scope r = MESSAGE_WITH_BODIES \<and> hasIssues r)
        \<and> (\<forall>r\<in>set rs. hasIssues r \<longrightarrow> scope r = MESSAGE_WITH_BODIES)"
  have split: "scopePriority
      = [DOCUMENT_WIDE, ALL_SUMMARIES, SUMMARY_PAIRS, SUMMARY_WITH_MESSAGES, MESSAGES_UNDER_SUMMARY]
        @ [MESSAGE_WITH_BODIES]"
    by (simp add: scopePriority_def)
  from scopes_distinct have other:
    "\<forall>sc\<in>set [DOCUMENT_WIDE, ALL_SUMMARIES, SUMMARY_PAIRS, SUMMARY_WITH_MESSAGES, MESSAGES_UNDER_SUMMARY].
        sc \<noteq> MESSAGE_WITH_BODIES"
    unfolding split by auto
  with h have "\<forall>sc\<in>set [DOCUMENT_WIDE, ALL_SUMMARIES, SUMMARY_PAIRS, SUMMARY_WITH_MESSAGES, MESSAGES_UNDER_SUMMARY].
        \<not> (\<exists>r\<in>set rs. scope r = sc \<and> hasIssues r)"
    by blast
  from find_last [where P = "\<lambda>sc. \<exists>r\<in>set rs. scope r = sc \<and> hasIssues r", OF this] h
  show "highestPriorityScope rs = Some MESSAGE_WITH_BODIES"
    unfolding highestPriorityScope_find split by blast
qed

theorem highest_priority_scope_witness:
  "scope (issueIn DOCUMENT_WIDE) = DOCUMENT_WIDE \<and> hasIssues (issueIn DOCUMENT_WIDE)
   \<and> scope (issueIn SUMMARY_PAIRS) = SUMMARY_PAIRS \<and> hasIssues (issueIn SUMMARY_PAIRS)
   \<and> highestPriorityScope [issueIn SUMMARY_PAIRS, issueIn DOCUMENT_WIDE] = Some DOCUMENT_WIDE
   \<and> scope (issueIn MESSAGE_WITH_BODIES) = MESSAGE_WITH_BODIES \<and> hasIssues (issueIn MESSAGE_WITH_BODIES)
   \<and> \<not> hasIssues (cleanIn DOCUMENT_WIDE)
   \<and> highestPriorityScope [cleanIn DOCUMENT_WIDE, issueIn MESSAGE_WITH_BODIES] = Some MESSAGE_WITH_BODIES
   \<and> highestPriorityScope [cleanIn DOCUMENT_WIDE] = None
   \<and> showHighestPriorityComments demoEditor
        ((initialState [para (ascii ''abc'')])\<lparr>evaluationResults := [cleanIn DOCUMENT_WIDE]\<rparr>)
       = showAllComments demoEditor
           ((initialState [para (ascii ''abc'')])\<lparr>evaluationResults := [cleanIn DOCUMENT_WIDE]\<rparr>)"
proof -
  let ?st = "(initialState [para (ascii ''abc'')])\<lparr>evaluationResults := [cleanIn DOCUMENT_WIDE]\<rparr>"
  have i: "\<And>sc. scope (issueIn sc) = sc" "\<And>sc. hasIssues (issueIn sc)"
    "\<And>sc. \<not> hasIssues (cleanIn sc)" "\<And>sc. scope (cleanIn sc) = sc"
    by (simp_all add: issueIn_def cleanIn_def hasIssues_def)
  have e: "evaluationResults ?st = [cleanIn DOCUMENT_WIDE]" by simp
  let ?r1 = "[issueIn SUMMARY_PAIRS, issueIn DOCUMENT_WIDE]"
  let ?r2 = "[cleanIn DOCUMENT_WIDE, issueIn MESSAGE_WITH_BODIES]"
  from highest_priority_scope [of ?r1 demoEditor ?st]
  have "(\<exists>r\<in>set ?r1. scope r = DOCUMENT_WIDE \<and> hasIssues r)
        \<longrightarrow> highestPriorityScope ?r1 = Some DOCUMENT_WIDE"
    by blast
  moreover have "\<exists>r\<in>set ?r1. scope r = DOCUMENT_WIDE \<and> hasIssues r"
    by (simp add: i)
  ultimately have a: "highestPriorityScope ?r1 = Some DOCUMENT_WIDE"
    by blast
  from highest_priority_scope [of ?r2 demoEditor ?st]
  have "(\<exists>r\<in>set ?r2. scope r = MESSAGE_WITH_BODIES \<and> hasIssues r)
        \<and> (\<forall>r\<in>set ?r2. hasIssues r \<longrightarrow> scope r = MESSAGE_WITH_BODIES)
        \<longrightarrow> highestPriorityScope ?r2 = Some MESSAGE_WITH_BODIES"
    by blast
  moreover have "(\<exists>r\<in>set ?r2. scope r = MESSAGE_WITH_BODIES \<and> hasIssues r)
        \<and> (\<forall>r\<in>set ?r2. hasIssues r \<longrightarrow> scope r = MESSAGE_WITH_BODIES)"
    by (simp add: i)
  ultimately have b: "highestPriorityScope ?r2 = Some MESSAGE_WITH_BODIES"
    by blast
  from highest_priority_scope [of ?r1 demoEditor ?st]
  have "(\<forall>r\<in>set (evaluationResults ?st). \<not> hasIssues r)
        \<longrightarrow> highestPriorityScope (evaluationResults ?st) = None
            \<and> showHighestPriorityComments demoEditor ?st = showAllComments demoEditor ?st"
    by blast
  moreover have "\<forall>r\<in>set (evaluationResults ?st). \<not> hasIssues r"
    by (simp add: i)
  ultimately have "highestPriorityScope (evaluationResults ?st) = None"
    and d: "showHighestPriorityComments demoEditor ?st = showAllComments demoEditor ?st"
    by blast+
  then have c: "highestPriorityScope [cleanIn DOCUMENT_WIDE] = None"
    by simp
  from i a b c d show ?thesis by simp
qed

subsection \<open>Score and the check run\<close>

lemma numAtLeast_mathRound:
  assumes "numAtLeast n 90"
  shows "numAtLeast (mathRound n) 90" and "n \<noteq> NaN"
proof -
  show "n \<noteq> NaN" using assms by (auto simp: numAtLeast_def)
  show "numAtLeast (mathRound n) 90"
  proof (cases n)
    case (Finite x)
    with assms have "(90::real) \<le> x + 1 / 2" by (simp add: numAtLeast_def)
    then have "(90::int) \<le> \<lfloor>x + 1 / 2\<rfloor>" by (simp add: le_floor_iff)
    then have "(90::real) \<le> of_int \<lfloor>x + 1 / 2\<rfloor>" by linarith
    with Finite show ?thesis by (simp add: numAtLeast_def mathRound_def)
  qed (use assms in \<open>simp_all add: numAtLeast_def mathRound_def\<close>)
qed

lemma updateScore_excellent:
  assumes "scoreDisplay st \<noteq> None" and "scoreMessage st \<noteq> None" and "numAtLeast n 90"
  shows "scoreMessage (updateScore n st) = Some excellentMessage"
    and "scoreDisplay (updateScore n st) = Some (NumberText (mathRound n), ascii ''#107C10'')"
  using assms numAtLeast_mathRound [OF assms(3)]
  by (simp_all add: updateScore_def scoreTier_def Let_def)

lemma responseScore_default:
  assumes "field = JUndefined \<or> field = JNull \<or> Number conv field = NaN"
  shows "responseScore conv field = Finite 100"
proof -
  have d: "Number conv (JNumber (Finite 100)) = Finite 100" by (simp add: Number_def)
  from assms consider "field = JUndefined" | "field = JNull"
    | "field \<noteq> JUndefined" "field \<noteq> JNull" "Number conv field = NaN"
    by blast
  then show ?thesis
    by cases (simp_all add: responseScore_def Let_def d)
qed

lemma updateScore_session:
  "paragraphs (updateScore n st) = paragraphs st"
  "evaluationResults (updateScore n st) = evaluationResults st"
  "lastCheckResults (updateScore n st) = lastCheckResults st"
  "comments (updateScore n st) = comments st"
  "highlighted (updateScore n st) = highlighted st"
  by (simp_all add: updateScore_def Let_def)

lemma applyResponse_session:
  "lastCheckResults (applyResponse ed conv responseData st) = Some responseData"
  "evaluationResults (applyResponse ed conv responseData st) = results responseData"
  "scoreDisplay (applyResponse ed conv responseData st)
     = scoreDisplay (updateScore (responseScore conv (score responseData)) st)"
  "scoreMessage (applyResponse ed conv responseData st)
     = scoreMessage (updateScore (responseScore conv (score responseData)) st)"
proof -
  let ?st1 = "st\<lparr>lastCheckResults := Some responseData\<rparr>"
  let ?st2 = "updateScore (responseScore conv (score responseData)) ?st1"
  let ?st3 = "?st2\<lparr>evaluationResults := results responseData\<rparr>"
  let ?st5 = "showHighestPriorityComments ed (removeAllComments ed ?st3)"
  have s: "sameSession ?st3 ?st5"
    by (rule sameSession_trans [OF removeAllComments_session showHighestPriorityComments_session])
  have u: "scoreDisplay ?st2 = scoreDisplay (updateScore (responseScore conv (score responseData)) st)"
    "scoreMessage ?st2 = scoreMessage (updateScore (responseScore conv (score responseData)) st)"
    by (simp_all add: updateScore_def Let_def)
  have a: "applyResponse ed conv responseData st
      = (if status responseData = ascii ''success'' then ?st5 else ?st3)"
    by (simp add: applyResponse_def Let_def)
  have l3: "lastCheckResults ?st3 = Some responseData" "evaluationResults ?st3 = results responseData"
    "scoreDisplay ?st3 = scoreDisplay ?st2" "scoreMessage ?st3 = scoreMessage ?st2"
    by (simp_all add: updateScore_session)
  from s have l5: "lastCheckResults ?st5 = lastCheckResults ?st3" "evaluationResults ?st5 = evaluationResults ?st3"
    "scoreDisplay ?st5 = scoreDisplay ?st3" "scoreMessage ?st5 = scoreMessage ?st3"
    by (simp_all add: sameSession_def)
  show "lastCheckResults (applyResponse ed conv responseData st) = Some responseData"
    unfolding a using l3 l5 by simp
  show "evaluationResults (applyResponse ed conv responseData st) = results responseData"
    unfolding a using l3 l5 by simp
  show "scoreDisplay (applyResponse ed conv responseData st)
     = scoreDisplay (updateScore (responseScore conv (score responseData)) st)"
    unfolding a using l3 l5 u by simp
  show "scoreMessage (applyResponse ed conv responseData st)
     = scoreMessage (updateScore (responseScore conv (score responseData)) st)"
    unfolding a using l3 l5 u by simp
qed

text \<open>
  Claim C6. When the request that \<open>run\<close> sends fails, because \<open>fetch\<close> rejects or because
  the response is not ok, \<open>run\<close> returns the state it was given: the stored results, the
  stored response, the comments, the highlights and everything else are as before. The
  stored response and the stored results are overwritten only after a response that is ok
  and has a body.
\<close>

theorem gateway_failure_changes_nothing:
  "(runRequest st = Some d \<and> (fetch d = NetworkError \<or> fetch d = HttpResponse False body)
      \<longrightarrow> run ed conv fetch st = st)
   \<and> (runRequest st = Some d \<and> fetch d = HttpResponse True (Some responseData)
      \<longrightarrow> lastCheckResults (run ed conv fetch st) = Some responseData
          \<and> evaluationResults (run ed conv fetch st) = results responseData)"
proof (intro conjI impI)
  assume "runRequest st = Some d \<and> (fetch d = NetworkError \<or> fetch d = HttpResponse False body)"
  then have r: "runRequest st = Some d" and f: "fetch d = NetworkError \<or> fetch d = HttpResponse False body"
    by blast+
  from f show "run ed conv fetch st = st"
  proof
    assume "fetch d = NetworkError"
    with r show ?thesis by (simp add: run_def)
  next
    assume "fetch d = HttpResponse False body"
    with r show ?thesis by (simp add: run_def)
  qed
next
  assume h: "runRequest st = Some d \<and> fetch d = HttpResponse True (Some responseData)"
  then have "run ed conv fetch st = applyResponse ed conv responseData st"
    by (simp add: run_def)
  then show "lastCheckResults (run ed conv fetch st) = Some responseData"
    and "evaluationResults (run ed conv fetch st) = results responseData"
    by (simp_all add: applyResponse_session)
qed

theorem gateway_failure_changes_nothing_witness:
  "runRequest (initialState [para (ascii ''- A''), para (ascii ''Title''), para (ascii ''- B'')])
     = Some \<lparr>req_summaries = [Summary (ascii ''B'') []], req_title = Some (ascii ''- A'')\<rparr>
   \<and> run demoEditor (\<lambda>j. NaN) (\<lambda>request. NetworkError)
        (initialState [para (ascii ''- A''), para (ascii ''Title''), para (ascii ''- B'')])
       = initialState [para (ascii ''- A''), para (ascii ''Title''), para (ascii ''- B'')]
   \<and> run demoEditor (\<lambda>j. NaN) (\<lambda>request. HttpResponse False None)
        (initialState [para (ascii ''- A''), para (ascii ''Title''), para (ascii ''- B'')])
       = initialState [para (ascii ''- A''), para (ascii ''Title''), para (ascii ''- B'')]
   \<and> lastCheckResults (run demoEditor (\<lambda>j. NaN) (\<lambda>request. HttpResponse True (Some nullScoreResponse))
        (initialState [para (ascii ''- A''), para (ascii ''Title''), para (ascii ''- B'')]))
       = Some nullScoreResponse"
proof -
  let ?st = "initialState [para (ascii ''- A''), para (ascii ''Title''), para (ascii ''- B'')]"
  let ?d = "\<lparr>req_summaries = [Summary (ascii ''B'') []], req_title = Some (ascii ''- A'')\<rparr>"
  note r = outline_request
  from gateway_failure_changes_nothing
    [of ?st ?d "\<lambda>request. NetworkError" None demoEditor "\<lambda>j. NaN" nullScoreResponse] r
  have a: "run demoEditor (\<lambda>j. NaN) (\<lambda>request. NetworkError) ?st = ?st"
    by simp
  from gateway_failure_changes_nothing
    [of ?st ?d "\<lambda>request. HttpResponse False None" None demoEditor "\<lambda>j. NaN" nullScoreResponse] r
  have b: "run demoEditor (\<lambda>j. NaN) (\<lambda>request. HttpResponse False None) ?st = ?st"
    by simp
  from gateway_failure_changes_nothing
    [of ?st ?d "\<lambda>request. HttpResponse True (Some nullScoreResponse)" None demoEditor "\<lambda>j. NaN"
        nullScoreResponse] r
  have c: "lastCheckResults (run demoEditor (\<lambda>j. NaN) (\<lambda>request. HttpResponse True (Some nullScoreResponse)) ?st)
       = Some nullScoreResponse"
    by simp
  from r a b c show ?thesis by simp
qed

text \<open>
  Claim C7. When the \<open>score\<close> of the response is absent, \<open>null\<close> or converts to NaN, the
  score that \<open>run\<close> passes on is 100, and on a page that has the two score elements the
  run displays 100 with the first message (the best of the five) in its colour. Every
  score of at least 90 is displayed, rounded, with that message and colour.
\<close>

theorem missing_score_is_100:
  "((field = JUndefined \<or> field = JNull \<or> Number conv field = NaN)
      \<longrightarrow> responseScore conv field = Finite 100)
   \<and> (scoreDisplay st \<noteq> None \<and> scoreMessage st \<noteq> None
       \<and> (score responseData = JUndefined \<or> score responseData = JNull
            \<or> Number conv (score responseData) = NaN)
      \<longrightarrow> scoreDisplay (applyResponse ed conv responseData st)
            = Some (NumberText (Finite 100), ascii ''#107C10'')
          \<and> scoreMessage (applyResponse ed conv responseData st) = Some excellentMessage)
   \<and> (scoreDisplay st \<noteq> None \<and> scoreMessage st \<noteq> None \<and> numAtLeast n 90
      \<longrightarrow> scoreDisplay (updateScore n st) = Some (NumberText (mathRound n), ascii ''#107C10'')
          \<and> scoreMessage (updateScore n st) = Some excellentMessage)
   \<and> (scoreDisplay st \<noteq> None \<and> scoreMessage st \<noteq> None
       \<and> numAtLeast (responseScore conv (score responseData)) 90
      \<longrightarrow> scoreDisplay (applyResponse ed conv responseData st)
            = Some (NumberText (mathRound (responseScore conv (score responseData))), ascii ''#107C10'')
          \<and> scoreMessage (applyResponse ed conv responseData st) = Some excellentMessage)"
proof (intro conjI impI)
  assume "field = JUndefined \<or> field = JNull \<or> Number conv field = NaN"
  then show "responseScore conv field = Finite 100" by (rule responseScore_default)
next
  assume h: "scoreDisplay st \<noteq> None \<and> scoreMessage st \<noteq> None
       \<and> (score responseData = JUndefined \<or> score responseData = JNull
            \<or> Number conv (score responseData) = NaN)"
  then have s: "responseScore conv (score responseData) = Finite 100"
    using responseScore_default by blast
  have n: "numAtLeast (Finite 100) 90" by (simp add: numAtLeast_def)
  have m: "mathRound (Finite 100) = Finite 100" by (simp add: mathRound_def)
  from h updateScore_excellent [OF _ _ n, of st]
  show "scoreDisplay (applyResponse ed conv responseData st)
            = Some (NumberText (Finite 100), ascii ''#107C10'')"
    and "scoreMessage (applyResponse ed conv responseData st) = Some excellentMessage"
    by (simp_all add: applyResponse_session s m)
next
  assume h: "scoreDisplay st \<noteq> None \<and> scoreMessage st \<noteq> None \<and> numAtLeast n 90"
  then show "scoreDisplay (updateScore n st) = Some (NumberText (mathRound n), ascii ''#107C10'')"
    and "scoreMessage (updateScore n st) = Some excellentMessage"
    using updateScore_excellent by blast+
next
  assume h: "scoreDisplay st \<noteq> None \<and> scoreMessage st \<noteq> None
       \<and> numAtLeast (responseScore conv (score responseData)) 90"
  then show "scoreDisplay (applyResponse ed conv responseData st)
            = Some (NumberText (mathRound (responseScore conv (score responseData))), ascii ''#107C10'')"
    and "scoreMessage (applyResponse ed conv responseData st) = Some excellentMessage"
    using updateScore_excellent [of st "responseScore conv (score responseData)"]
    by (simp_all add: applyResponse_session)
qed

theorem missing_score_is_100_witness:
  "score nullScoreResponse = JNull
   \<and> scoreDisplay (initialState []) = Some (Literal (ascii ''-''), [])
   \<and> responseScore (\<lambda>j. NaN) JNull = Finite 100
   \<and> Number (\<lambda>j. NaN) (JOther (ascii ''abc'')) = NaN
   \<and> responseScore (\<lambda>j. NaN) (JOther (ascii ''abc'')) = Finite 100
   \<and> scoreDisplay (applyResponse demoEditor (\<lambda>j. NaN) nullScoreResponse (initialState []))
       = Some (NumberText (Finite 100), ascii ''#107C10'')
   \<and> scoreMessage (applyResponse demoEditor (\<lambda>j. NaN) nullScoreResponse (initialState []))
       = Some excellentMessage
   \<and> numAtLeast (Finite (181 / 2)) 90
   \<and> scoreDisplay (updateScore (Finite (181 / 2)) (initialState []))
       = Some (NumberText (Finite 91), ascii ''#107C10'')"
proof -
  let ?st = "initialState []"
  have e: "scoreDisplay ?st \<noteq> None" "scoreMessage ?st \<noteq> None"
    "scoreDisplay ?st = Some (Literal (ascii ''-''), [])"
    by (simp_all add: initialState_def)
  have s: "score nullScoreResponse = JNull" by (simp add: nullScoreResponse_def)
  have o: "Number (\<lambda>j. NaN) (JOther (ascii ''abc'')) = NaN" by (simp add: Number_def)
  have n: "numAtLeast (Finite (181 / 2)) 90" by (simp add: numAtLeast_def)
  have m: "mathRound (Finite (181 / 2)) = Finite 91" by (simp add: mathRound_def)
  note t1 = missing_score_is_100 [of JNull "\<lambda>j. NaN" ?st nullScoreResponse demoEditor "Finite (181 / 2)"]
  note t2 = missing_score_is_100 [of "JOther (ascii ''abc'')" "\<lambda>j. NaN" ?st nullScoreResponse demoEditor
      "Finite (181 / 2)"]
  from t1 have a: "responseScore (\<lambda>j. NaN) JNull = Finite 100" by blast
  from t2 o have b: "responseScore (\<lambda>j. NaN) (JOther (ascii ''abc'')) = Finite 100" by blast
  from t1 e s have c: "scoreDisplay (applyResponse demoEditor (\<lambda>j. NaN) nullScoreResponse ?st)
       = Some (NumberText (Finite 100), ascii ''#107C10'')"
    and d: "scoreMessage (applyResponse demoEditor (\<lambda>j. NaN) nullScoreResponse ?st) = Some excellentMessage"
    by blast+
  from t1 e n have "scoreDisplay (updateScore (Finite (181 / 2)) ?st)
       = Some (NumberText (mathRound (Finite (181 / 2))), ascii ''#107C10'')"
    by blast
  with m have f: "scoreDisplay (updateScore (Finite (181 / 2)) ?st)
       = Some (NumberText (Finite 91), ascii ''#107C10'')"
    by simp
  from s e(3) a o b c d n f show ?thesis by blast
qed

end
